theory Spec2Isabelle
  imports Complex_Main "HOL-Library.AList"
begin

section \<open>Values read from the session files\<close>

text \<open>
  \<^verbatim>\<open>json.loads\<close> turns a line into a Python value. The embedding keeps the dynamic
  typing of the source: every field of an entry is a \<open>json\<close> value and each operation
  of the source says what it does on each kind of value. JSON numbers are the integers
  (Python's unbounded \<^verbatim>\<open>int\<close>); numbers with a fraction or an exponent (Python
  \<^verbatim>\<open>float\<close>) are outside the model. An object is the list of items of the loaded
  \<^verbatim>\<open>dict\<close>; \<open>map_of\<close> reads it.
\<close>

datatype json =
    JNull
  | JBool bool
  | JInt int
  | JStr string
  | JArr "json list"
  | JObj "(string \<times> json) list"

text \<open>The exceptions that leave \<^verbatim>\<open>process_entry\<close>. A \<^verbatim>\<open>ValueError\<close> is
  caught inside it and never leaves.\<close>

datatype exn = AttributeError | TypeError

text \<open>Python truth value of a loaded value (\<^verbatim>\<open>if x:\<close>).\<close>

fun truthy :: "json \<Rightarrow> bool" where
  "truthy JNull = False"
| "truthy (JBool b) = b"
| "truthy (JInt i) = (i \<noteq> 0)"
| "truthy (JStr s) = (s \<noteq> [])"
| "truthy (JArr xs) = (xs \<noteq> [])"
| "truthy (JObj kvs) = (kvs \<noteq> [])"

text \<open>\<^verbatim>\<open>d.get(k, default)\<close> on a value known to be a \<^verbatim>\<open>dict\<close>.\<close>

definition dict_get :: "(string \<times> json) list \<Rightarrow> string \<Rightarrow> json \<Rightarrow> json" where
  "dict_get kvs k dflt = (case map_of kvs k of None \<Rightarrow> dflt | Some v \<Rightarrow> v)"

text \<open>\<^verbatim>\<open>x.get(k, default)\<close> on any loaded value: only a \<^verbatim>\<open>dict\<close> has the
  method, every other value raises \<^verbatim>\<open>AttributeError\<close>.\<close>

definition py_get :: "json \<Rightarrow> string \<Rightarrow> json \<Rightarrow> exn + json" where
  "py_get x k dflt = (case x of JObj kvs \<Rightarrow> Inr (dict_get kvs k dflt) | _ \<Rightarrow> Inl AttributeError)"

text \<open>
  Keys of the counters and members of the session sets: the hashable values, up to
  Python's equality (\<^verbatim>\<open>True == 1\<close>, \<^verbatim>\<open>False == 0\<close>). Lists and dicts are not
  hashable: using one as a key raises \<^verbatim>\<open>TypeError\<close>.
\<close>

datatype pykey = KNone | KInt int | KStr string

fun py_hash_key :: "json \<Rightarrow> pykey option" where
  "py_hash_key JNull = Some KNone"
| "py_hash_key (JBool b) = Some (KInt (if b then 1 else 0))"
| "py_hash_key (JInt i) = Some (KInt i)"
| "py_hash_key (JStr s) = Some (KStr s)"
| "py_hash_key (JArr xs) = None"
| "py_hash_key (JObj kvs) = None"

text \<open>The right operand of \<^verbatim>\<open>total += v\<close> for an \<^verbatim>\<open>int\<close> total: an
  \<^verbatim>\<open>int\<close>, or a \<^verbatim>\<open>bool\<close> (which Python adds as 0 or 1); anything else raises
  \<^verbatim>\<open>TypeError\<close>.\<close>

fun int_operand :: "json \<Rightarrow> exn + int" where
  "int_operand (JInt i) = Inr i"
| "int_operand (JBool b) = Inr (if b then 1 else 0)"
| "int_operand v = Inl TypeError"

text \<open>\<^verbatim>\<open>usage.get(key, 0)\<close> as the operand of an addition.\<close>

definition usage_operand :: "json \<Rightarrow> string \<Rightarrow> exn + int" where
  "usage_operand usage key =
     (case py_get usage key (JInt 0) of Inl e \<Rightarrow> Inl e | Inr v \<Rightarrow> int_operand v)"

section \<open>Timestamps\<close>

text \<open>
  \<^verbatim>\<open>datetime.fromisoformat\<close> belongs to the Python library, not to the repository:
  it is a parameter \<open>fromisoformat :: string \<Rightarrow> datetime option\<close> of the model,
  \<open>None\<close> standing for \<^verbatim>\<open>ValueError\<close>. A parsed value is aware (it carries a UTC
  offset and denotes an instant, here in microseconds since the epoch) or naive (no
  offset: a wall-clock reading, not an instant).
\<close>

datatype datetime = Naive int | Aware int

text \<open>\<^verbatim>\<open>timestamp.replace('Z', '+00:00')\<close>\<close>

definition replace_Z :: "string \<Rightarrow> string" where
  "replace_Z s = concat (map (\<lambda>c. if c = CHR ''Z'' then ''+00:00'' else [c]) s)"

text \<open>\<^verbatim>\<open>entry_date < self.cutoff_date\<close>: the cutoff is aware, and Python refuses to
  compare a naive value with it.\<close>

fun before_cutoff :: "datetime \<Rightarrow> int \<Rightarrow> exn + bool" where
  "before_cutoff (Aware t) cutoff = Inr (t < cutoff)"
| "before_cutoff (Naive t) cutoff = Inl TypeError"

section \<open>The monitor's state\<close>

record tool_tokens =
  input_tokens :: int
  output_tokens :: int
  cache_creation_tokens :: int
  cache_read_tokens :: int

record agent_stats =
  count :: int
  total_input_tokens :: int
  total_output_tokens :: int
  total_cache_creation_tokens :: int
  total_cache_read_tokens :: int
  sessions :: "pykey set"

text \<open>The dictionaries keep their insertion order, as Python's do.\<close>

record monitor =
  days :: int
  cutoff_date :: int
  tool_usage :: "(pykey \<times> int) list"
  agent_usage :: "(pykey \<times> agent_stats) list"
  tool_token_usage :: "(pykey \<times> tool_tokens) list"
  sessions_analyzed :: "pykey set"
  total_sessions :: nat

definition agent_default :: agent_stats where
  "agent_default =
     \<lparr>count = 0, total_input_tokens = 0, total_output_tokens = 0,
      total_cache_creation_tokens = 0, total_cache_read_tokens = 0, sessions = {}\<rparr>"

definition tool_default :: tool_tokens where
  "tool_default =
     \<lparr>input_tokens = 0, output_tokens = 0, cache_creation_tokens = 0, cache_read_tokens = 0\<rparr>"

text \<open>\<^verbatim>\<open>__init__\<close>: \<open>now\<close> is the instant read from the clock, in microseconds.\<close>

definition init :: "int \<Rightarrow> int \<Rightarrow> monitor" where
  "init now d =
     \<lparr>days = d, cutoff_date = now - d * 86400000000,
      tool_usage = [], agent_usage = [], tool_token_usage = [],
      sessions_analyzed = {}, total_sessions = 0\<rparr>"

text \<open>Reading a \<^verbatim>\<open>Counter\<close> (a missing key reads 0) and a \<^verbatim>\<open>defaultdict\<close>
  (a missing key reads the default record).\<close>

definition tool_calls :: "monitor \<Rightarrow> pykey \<Rightarrow> int" where
  "tool_calls m k = (case map_of (tool_usage m) k of None \<Rightarrow> 0 | Some n \<Rightarrow> n)"

definition tool_get :: "monitor \<Rightarrow> pykey \<Rightarrow> tool_tokens" where
  "tool_get m k = (case map_of (tool_token_usage m) k of None \<Rightarrow> tool_default | Some r \<Rightarrow> r)"

definition agent_get :: "monitor \<Rightarrow> pykey \<Rightarrow> agent_stats" where
  "agent_get m k = (case map_of (agent_usage m) k of None \<Rightarrow> agent_default | Some r \<Rightarrow> r)"

section \<open>Statements that may raise\<close>

text \<open>
  A statement takes the state and returns the state it leaves, with the exception it
  raised if any: what was mutated before the exception stays mutated, as it does in the
  object the source updates in place.
\<close>

type_synonym stmt = "monitor \<Rightarrow> exn option \<times> monitor"

definition skip :: stmt where
  "skip m = (None, m)"

definition raise :: "exn \<Rightarrow> stmt" where
  "raise e m = (Some e, m)"

definition then_do :: "stmt \<Rightarrow> stmt \<Rightarrow> stmt" where
  "then_do f g m = (case f m of (None, m') \<Rightarrow> g m' | (Some e, m') \<Rightarrow> (Some e, m'))"

text \<open>\<^verbatim>\<open>self.tool_usage[tool_name] += 1\<close>\<close>

definition incr_tool_usage :: "json \<Rightarrow> stmt" where
  "incr_tool_usage tool_name m =
     (case py_hash_key tool_name of
        None \<Rightarrow> (Some TypeError, m)
      | Some k \<Rightarrow> (None, m\<lparr>tool_usage := AList.update k (tool_calls m k + 1) (tool_usage m)\<rparr>))"

text \<open>
  \<^verbatim>\<open>self.tool_token_usage[tool_name][field] += usage.get(key, 0)\<close>. Python evaluates
  the target first, which inserts the default record for a new tool, then the right-hand
  side, which may raise, then stores the sum.
\<close>

definition tool_add :: "pykey \<Rightarrow> (int \<Rightarrow> tool_tokens \<Rightarrow> tool_tokens) \<Rightarrow> json \<Rightarrow> string \<Rightarrow> stmt" where
  "tool_add k add usage key m =
     (case usage_operand usage key of
        Inl e \<Rightarrow> (Some e, m\<lparr>tool_token_usage := AList.update k (tool_get m k) (tool_token_usage m)\<rparr>)
      | Inr v \<Rightarrow>
          (None, m\<lparr>tool_token_usage := AList.update k (add v (tool_get m k)) (tool_token_usage m)\<rparr>))"

definition track_tool_tokens :: "json \<Rightarrow> json \<Rightarrow> stmt" where
  "track_tool_tokens tool_name message m =
     (case py_get message ''usage'' (JObj []) of
        Inl e \<Rightarrow> (Some e, m)
      | Inr usage \<Rightarrow>
          (case py_hash_key tool_name of
             None \<Rightarrow> (Some TypeError, m)
           | Some k \<Rightarrow>
               then_do (tool_add k (\<lambda>v r. r\<lparr>input_tokens := input_tokens r + v\<rparr>) usage ''input_tokens'')
              (then_do (tool_add k (\<lambda>v r. r\<lparr>output_tokens := output_tokens r + v\<rparr>) usage ''output_tokens'')
              (then_do (tool_add k (\<lambda>v r. r\<lparr>cache_creation_tokens := cache_creation_tokens r + v\<rparr>)
                          usage ''cache_creation_input_tokens'')
                       (tool_add k (\<lambda>v r. r\<lparr>cache_read_tokens := cache_read_tokens r + v\<rparr>)
                          usage ''cache_read_input_tokens''))) m))"

text \<open>\<^verbatim>\<open>self.agent_usage[agent_name]['count'] += 1\<close>\<close>

definition agent_incr :: "pykey \<Rightarrow> stmt" where
  "agent_incr k m =
     (None, m\<lparr>agent_usage :=
                AList.update k ((agent_get m k)\<lparr>count := count (agent_get m k) + 1\<rparr>) (agent_usage m)\<rparr>)"

text \<open>\<^verbatim>\<open>self.agent_usage[agent_name][field] += usage.get(key, 0)\<close>\<close>

definition agent_add :: "pykey \<Rightarrow> (int \<Rightarrow> agent_stats \<Rightarrow> agent_stats) \<Rightarrow> json \<Rightarrow> string \<Rightarrow> stmt" where
  "agent_add k add usage key m =
     (case usage_operand usage key of
        Inl e \<Rightarrow> (Some e, m\<lparr>agent_usage := AList.update k (agent_get m k) (agent_usage m)\<rparr>)
      | Inr v \<Rightarrow> (None, m\<lparr>agent_usage := AList.update k (add v (agent_get m k)) (agent_usage m)\<rparr>))"

text \<open>\<^verbatim>\<open>if session_id: self.agent_usage[agent_name]['sessions'].add(session_id)\<close>\<close>

definition agent_add_session :: "pykey \<Rightarrow> json \<Rightarrow> stmt" where
  "agent_add_session k session_id m =
     (if truthy session_id then
        (case py_hash_key session_id of
           None \<Rightarrow> (Some TypeError, m\<lparr>agent_usage := AList.update k (agent_get m k) (agent_usage m)\<rparr>)
         | Some s \<Rightarrow>
             (None, m\<lparr>agent_usage :=
                        AList.update k ((agent_get m k)\<lparr>sessions := insert s (sessions (agent_get m k))\<rparr>)
                          (agent_usage m)\<rparr>))
      else (None, m))"

definition track_agent_usage :: "json \<Rightarrow> json \<Rightarrow> json \<Rightarrow> stmt" where
  "track_agent_usage agent_name message session_id m =
     (case py_get message ''usage'' (JObj []) of
        Inl e \<Rightarrow> (Some e, m)
      | Inr usage \<Rightarrow>
          (case py_hash_key agent_name of
             None \<Rightarrow> (Some TypeError, m)
           | Some k \<Rightarrow>
               then_do (agent_incr k)
              (then_do (agent_add k (\<lambda>v r. r\<lparr>total_input_tokens := total_input_tokens r + v\<rparr>)
                          usage ''input_tokens'')
              (then_do (agent_add k (\<lambda>v r. r\<lparr>total_output_tokens := total_output_tokens r + v\<rparr>)
                          usage ''output_tokens'')
              (then_do (agent_add k (\<lambda>v r. r\<lparr>total_cache_creation_tokens := total_cache_creation_tokens r + v\<rparr>)
                          usage ''cache_creation_input_tokens'')
              (then_do (agent_add k (\<lambda>v r. r\<lparr>total_cache_read_tokens := total_cache_read_tokens r + v\<rparr>)
                          usage ''cache_read_input_tokens'')
                       (agent_add_session k session_id))))) m))"

section \<open>Processing an entry\<close>

text \<open>\<^verbatim>\<open>tool_input.get('subagent_type') or tool_input.get('agent')\<close>\<close>

definition subagent_of :: "json \<Rightarrow> exn + json" where
  "subagent_of tool_input =
     (case py_get tool_input ''subagent_type'' JNull of
        Inl e \<Rightarrow> Inl e
      | Inr a \<Rightarrow> if truthy a then Inr a else py_get tool_input ''agent'' JNull)"

text \<open>The branch for the \<^verbatim>\<open>Task\<close> tool (lines 112 to 115).\<close>

definition task_branch :: "json \<Rightarrow> json \<Rightarrow> json \<Rightarrow> stmt" where
  "task_branch tool_input message session_id m =
     (case subagent_of tool_input of
        Inl e \<Rightarrow> (Some e, m)
      | Inr subagent \<Rightarrow>
          if truthy subagent then track_agent_usage subagent message session_id m else (None, m))"

text \<open>The body of the loop over \<^verbatim>\<open>content\<close> (lines 104 to 118).\<close>

definition process_item :: "json \<Rightarrow> json \<Rightarrow> json \<Rightarrow> stmt" where
  "process_item message session_id item m =
     (case item of
        JObj kvs \<Rightarrow>
          if map_of kvs ''type'' = Some (JStr ''tool_use'') then
            (let tool_name = dict_get kvs ''name'' JNull;
                 tool_input = dict_get kvs ''input'' (JObj [])
             in if truthy tool_name then
                  then_do (incr_tool_usage tool_name)
                 (then_do (if tool_name = JStr ''Task''
                           then task_branch tool_input message session_id else skip)
                          (track_tool_tokens tool_name message)) m
                else (None, m))
          else (None, m)
      | _ \<Rightarrow> (None, m))"

text \<open>The loop: an exception ends it, and the items before it have had their effect.\<close>

fun process_items :: "json \<Rightarrow> json \<Rightarrow> json list \<Rightarrow> stmt" where
  "process_items message session_id [] m = (None, m)"
| "process_items message session_id (item # items) m =
     (case process_item message session_id item m of
        (None, m') \<Rightarrow> process_items message session_id items m'
      | (Some e, m') \<Rightarrow> (Some e, m'))"

text \<open>
  The time filter (lines 84 to 91), on the value of \<^verbatim>\<open>entry.get('timestamp')\<close>:
  \<open>Inr True\<close> when the entry is excluded (the early \<^verbatim>\<open>return\<close>), \<open>Inr False\<close>
  when it is retained, \<open>Inl\<close> when an exception other than \<^verbatim>\<open>ValueError\<close> leaves
  the \<^verbatim>\<open>try\<close>. Only a \<^verbatim>\<open>str\<close> has the method \<^verbatim>\<open>replace\<close>.
\<close>

definition time_filter :: "(string \<Rightarrow> datetime option) \<Rightarrow> int \<Rightarrow> json \<Rightarrow> exn + bool" where
  "time_filter fromisoformat cutoff timestamp =
     (if truthy timestamp then
        (case timestamp of
           JStr s \<Rightarrow>
             (case fromisoformat (replace_Z s) of
                None \<Rightarrow> Inr False
              | Some entry_date \<Rightarrow> before_cutoff entry_date cutoff)
         | _ \<Rightarrow> Inl AttributeError)
      else Inr False)"

text \<open>The rest of \<^verbatim>\<open>process_entry\<close> (lines 93 to 118), on an entry that is a
  \<^verbatim>\<open>dict\<close> and passed the filter.\<close>

definition track_entry :: "(string \<times> json) list \<Rightarrow> stmt" where
  "track_entry kvs m =
     (let session_id = dict_get kvs ''sessionId'' JNull in
      then_do
        (if truthy session_id then
           (\<lambda>m. case py_hash_key session_id of
                   None \<Rightarrow> (Some TypeError, m)
                 | Some s \<Rightarrow> (None, m\<lparr>sessions_analyzed := insert s (sessions_analyzed m)\<rparr>))
         else skip)
        (\<lambda>m. let message = dict_get kvs ''message'' (JObj []) in
              case py_get message ''content'' (JArr []) of
                Inl e \<Rightarrow> (Some e, m)
              | Inr content \<Rightarrow>
                  (case content of
                     JArr items \<Rightarrow> process_items message session_id items m
                   | _ \<Rightarrow> (None, m))) m)"

definition process_entry :: "(string \<Rightarrow> datetime option) \<Rightarrow> json \<Rightarrow> stmt" where
  "process_entry fromisoformat entry m =
     (case entry of
        JObj kvs \<Rightarrow>
          (case time_filter fromisoformat (cutoff_date m) (dict_get kvs ''timestamp'' JNull) of
             Inl e \<Rightarrow> (Some e, m)
           | Inr True \<Rightarrow> (None, m)
           | Inr False \<Rightarrow> track_entry kvs m)
      | _ \<Rightarrow> (Some AttributeError, m))"

section \<open>Files\<close>

text \<open>
  A line of a session file, as \<^verbatim>\<open>parse_session_file\<close> sees it: blank
  (\<^verbatim>\<open>line.strip()\<close> is empty), not JSON (\<^verbatim>\<open>json.loads\<close> raises
  \<^verbatim>\<open>JSONDecodeError\<close>), or the value \<^verbatim>\<open>json.loads\<close> returns.
\<close>

datatype line = BlankLine | BadJson | JsonLine json

text \<open>
  The loop over the lines. A blank line and a line that is not JSON are skipped. Any
  other exception leaves the loop for the outer handler, which prints it: the lines
  after it are not read. The result holds the exception printed, if any.
\<close>

fun parse_session_file :: "(string \<Rightarrow> datetime option) \<Rightarrow> line list \<Rightarrow> stmt" where
  "parse_session_file fromisoformat [] m = (None, m)"
| "parse_session_file fromisoformat (BlankLine # ls) m = parse_session_file fromisoformat ls m"
| "parse_session_file fromisoformat (BadJson # ls) m = parse_session_file fromisoformat ls m"
| "parse_session_file fromisoformat (JsonLine entry # ls) m =
     (case process_entry fromisoformat entry m of
        (None, m') \<Rightarrow> parse_session_file fromisoformat ls m'
      | (Some e, m') \<Rightarrow> (Some e, m'))"

text \<open>The loop over the files of \<^verbatim>\<open>analyze_all_sessions\<close>: every file is parsed,
  whatever the files before it printed. The result lists what was printed.\<close>

fun parse_files :: "(string \<Rightarrow> datetime option) \<Rightarrow> line list list \<Rightarrow> monitor \<Rightarrow> exn list \<times> monitor" where
  "parse_files fromisoformat [] m = ([], m)"
| "parse_files fromisoformat (f # fs) m =
     (case parse_session_file fromisoformat f m of
        (r, m') \<Rightarrow>
          (case parse_files fromisoformat fs m' of
             (rs, m'') \<Rightarrow> ((case r of None \<Rightarrow> [] | Some e \<Rightarrow> [e]) @ rs, m'')))"

text \<open>\<^verbatim>\<open>analyze_all_sessions\<close>, on the files the directory holds (\<open>None\<close> when the
  directory does not exist).\<close>

definition analyze_all_sessions ::
  "(string \<Rightarrow> datetime option) \<Rightarrow> line list list option \<Rightarrow> monitor \<Rightarrow> exn list \<times> monitor" where
  "analyze_all_sessions fromisoformat dir m =
     (case dir of
        None \<Rightarrow> ([], m)
      | Some jsonl_files \<Rightarrow>
          parse_files fromisoformat jsonl_files (m\<lparr>total_sessions := length jsonl_files\<rparr>))"

section \<open>Derived metrics of the text report\<close>

text \<open>
  The divisions of the report are Python's true division, on floats. The model computes
  them over the reals: it states the formulas and leaves rounding out.
\<close>

datatype consumer_name = AgentName pykey | ToolName pykey

record consumer =
  name :: consumer_name
  total_billable :: int
  total_cache_read :: int
  cache_efficiency :: real
  calls :: int

definition agent_consumer :: "pykey \<times> agent_stats \<Rightarrow> consumer" where
  "agent_consumer p =
     (case p of (agent, data) \<Rightarrow>
        (let billable = total_input_tokens data + total_output_tokens data * 3
                          + total_cache_creation_tokens data;
             total_with_cache = billable + total_cache_read_tokens data
         in \<lparr>name = AgentName agent,
             total_billable = billable,
             total_cache_read = total_cache_read_tokens data,
             cache_efficiency =
               (if total_with_cache > 0
                then real_of_int (total_cache_read_tokens data) / real_of_int total_with_cache * 100
                else 0),
             calls = count data\<rparr>))"

definition tool_consumer :: "monitor \<Rightarrow> pykey \<times> tool_tokens \<Rightarrow> consumer" where
  "tool_consumer m p =
     (case p of (tool, tokens) \<Rightarrow>
        (let billable = input_tokens tokens + output_tokens tokens * 3
                          + cache_creation_tokens tokens;
             total_with_cache = billable + cache_read_tokens tokens
         in \<lparr>name = ToolName tool,
             total_billable = billable,
             total_cache_read = cache_read_tokens tokens,
             cache_efficiency =
               (if total_with_cache > 0
                then real_of_int (cache_read_tokens tokens) / real_of_int total_with_cache * 100
                else 0),
             calls = tool_calls m tool\<rparr>))"

text \<open>The list of consumers after \<^verbatim>\<open>sort(key=..., reverse=True)\<close>: descending by
  billable tokens, equal keys in their first order.\<close>

definition token_consumers :: "monitor \<Rightarrow> consumer list" where
  "token_consumers m =
     sort_key (\<lambda>c. - total_billable c)
       (map agent_consumer (agent_usage m) @ map (tool_consumer m) (tool_token_usage m))"

definition total_cache_read_all :: "monitor \<Rightarrow> int" where
  "total_cache_read_all m = sum_list (map total_cache_read (token_consumers m))"

definition total_billable_all :: "monitor \<Rightarrow> int" where
  "total_billable_all m = sum_list (map total_billable (token_consumers m))"

definition overall_efficiency :: "monitor \<Rightarrow> real" where
  "overall_efficiency m =
     (if total_billable_all m + total_cache_read_all m > 0
      then real_of_int (total_cache_read_all m)
             / real_of_int (total_billable_all m + total_cache_read_all m) * 100
      else 0)"

definition total_input :: "monitor \<Rightarrow> int" where
  "total_input m =
     sum_list (map (\<lambda>p. input_tokens (snd p)) (tool_token_usage m))
     + sum_list (map (\<lambda>p. total_input_tokens (snd p)) (agent_usage m))"

definition total_output :: "monitor \<Rightarrow> int" where
  "total_output m =
     sum_list (map (\<lambda>p. output_tokens (snd p)) (tool_token_usage m))
     + sum_list (map (\<lambda>p. total_output_tokens (snd p)) (agent_usage m))"

definition total_cache_create :: "monitor \<Rightarrow> int" where
  "total_cache_create m =
     sum_list (map (\<lambda>p. cache_creation_tokens (snd p)) (tool_token_usage m))
     + sum_list (map (\<lambda>p. total_cache_creation_tokens (snd p)) (agent_usage m))"

definition estimated_cost :: "monitor \<Rightarrow> real" where
  "estimated_cost m =
     (real_of_int (total_input m) / 1000000) * 3
     + (real_of_int (total_output m) / 1000000) * 15
     + (real_of_int (total_cache_create m) / 1000000) * 3
     + (real_of_int (total_cache_read_all m) / 1000000) * (3 / 10)"

text \<open>The averages of the reports: \<^verbatim>\<open>total // count if count > 0 else 0\<close>.\<close>

definition average :: "int \<Rightarrow> int \<Rightarrow> int" where
  "average tot n = (if n > 0 then tot div n else 0)"

section \<open>Summary counts of the reports\<close>

text \<open>\<^verbatim>\<open>sum(self.tool_usage.values())\<close> and
  \<^verbatim>\<open>sum(d['count'] for d in self.agent_usage.values())\<close>\<close>

definition total_tool_calls :: "monitor \<Rightarrow> int" where
  "total_tool_calls m = sum_list (map snd (tool_usage m))"

definition total_agent_invocations :: "monitor \<Rightarrow> int" where
  "total_agent_invocations m = sum_list (map (\<lambda>p. count (snd p)) (agent_usage m))"

section \<open>Vocabulary of the properties\<close>

text \<open>The items of \<^verbatim>\<open>message.content\<close> when that field is a list, no item
  otherwise.\<close>

definition content_items :: "(string \<times> json) list \<Rightarrow> json list" where
  "content_items kvs =
     (case py_get (dict_get kvs ''message'' (JObj [])) ''content'' (JArr []) of
        Inr (JArr items) \<Rightarrow> items
      | _ \<Rightarrow> [])"

text \<open>An item that is an object with \<^verbatim>\<open>type\<close> equal to \<^verbatim>\<open>"tool_use"\<close> and
  \<^verbatim>\<open>name\<close> equal to the string \<open>T\<close>.\<close>

definition tool_use_named :: "string \<Rightarrow> json \<Rightarrow> bool" where
  "tool_use_named T item =
     (case item of
        JObj kvs \<Rightarrow> map_of kvs ''type'' = Some (JStr ''tool_use'') \<and> map_of kvs ''name'' = Some (JStr T)
      | _ \<Rightarrow> False)"

text \<open>A \<^verbatim>\<open>Task\<close> block whose input names the agent with key \<open>k\<close>: the value of
  \<^verbatim>\<open>subagent_type or agent\<close> is truthy and hashes to \<open>k\<close>.\<close>

definition selects_agent :: "pykey \<Rightarrow> json \<Rightarrow> bool" where
  "selects_agent k item =
     (case item of
        JObj kvs \<Rightarrow>
          tool_use_named ''Task'' item \<and>
          (case subagent_of (dict_get kvs ''input'' (JObj [])) of
             Inr s \<Rightarrow> truthy s \<and> py_hash_key s = Some k
           | Inl e \<Rightarrow> False)
      | _ \<Rightarrow> False)"

text \<open>The amount \<^verbatim>\<open>message.get('usage', {}).get(key, 0)\<close> adds to a total, 0 where
  the read or the addition raises.\<close>

definition usage_amount :: "json \<Rightarrow> string \<Rightarrow> int" where
  "usage_amount message key =
     (case py_get message ''usage'' (JObj []) of
        Inr usage \<Rightarrow> (case usage_operand usage key of Inr v \<Rightarrow> v | Inl e \<Rightarrow> 0)
      | Inl e \<Rightarrow> 0)"

text \<open>No usage counter of the entry is a negative number.\<close>

definition usage_nonneg :: "json \<Rightarrow> bool" where
  "usage_nonneg entry =
     (case entry of
        JObj kvs \<Rightarrow>
          (let message = dict_get kvs ''message'' (JObj []) in
             0 \<le> usage_amount message ''input_tokens''
           \<and> 0 \<le> usage_amount message ''output_tokens''
           \<and> 0 \<le> usage_amount message ''cache_creation_input_tokens''
           \<and> 0 \<le> usage_amount message ''cache_read_input_tokens'')
      | _ \<Rightarrow> True)"

text \<open>Every numeric aggregate of \<open>m\<close> is at most its value in \<open>m'\<close>: the call count and
  the four token totals of every tool, the invocation count and the four token totals of
  every agent. A name with no record reads 0.\<close>

definition aggregates_le :: "monitor \<Rightarrow> monitor \<Rightarrow> bool" where
  "aggregates_le m m' =
     (\<forall>k. tool_calls m k \<le> tool_calls m' k
        \<and> input_tokens (tool_get m k) \<le> input_tokens (tool_get m' k)
        \<and> output_tokens (tool_get m k) \<le> output_tokens (tool_get m' k)
        \<and> cache_creation_tokens (tool_get m k) \<le> cache_creation_tokens (tool_get m' k)
        \<and> cache_read_tokens (tool_get m k) \<le> cache_read_tokens (tool_get m' k)
        \<and> count (agent_get m k) \<le> count (agent_get m' k)
        \<and> total_input_tokens (agent_get m k) \<le> total_input_tokens (agent_get m' k)
        \<and> total_output_tokens (agent_get m k) \<le> total_output_tokens (agent_get m' k)
        \<and> total_cache_creation_tokens (agent_get m k) \<le> total_cache_creation_tokens (agent_get m' k)
        \<and> total_cache_read_tokens (agent_get m k) \<le> total_cache_read_tokens (agent_get m' k))"

fun line_nonneg :: "line \<Rightarrow> bool" where
  "line_nonneg (JsonLine entry) = usage_nonneg entry"
| "line_nonneg l = True"

definition files_nonneg :: "line list list \<Rightarrow> bool" where
  "files_nonneg files = list_all (list_all line_nonneg) files"

text \<open>
  A stand-in for \<^verbatim>\<open>datetime.fromisoformat\<close> on the strings of the examples below:
  midnight UTC of 1 January 2025 with and without an offset, and text that is no date.
\<close>

definition example_fromisoformat :: "string \<Rightarrow> datetime option" where
  "example_fromisoformat s =
     (if s = ''2025-01-01T00:00:00+00:00'' then Some (Aware 1735689600000000)
      else if s = ''2025-01-01T00:00:00'' then Some (Naive 1735689600000000)
      else None)"

section \<open>Effects of the statements\<close>

lemma fst_then_do_None:
  "fst (then_do f g m) = None \<longleftrightarrow> fst (f m) = None \<and> fst (g (snd (f m))) = None"
  by (cases "f m") (auto simp add: then_do_def split: option.splits)

lemma snd_then_do_ok:
  "fst (f m) = None \<Longrightarrow> snd (then_do f g m) = snd (g (snd (f m)))"
  by (cases "f m") (auto simp add: then_do_def split: option.splits)

lemma then_do_post:
  assumes "Q (snd (f m))" and "\<And>m'. Q m' \<Longrightarrow> Q (snd (g m'))"
  shows "Q (snd (then_do f g m))"
  using assms by (cases "f m") (auto simp add: then_do_def split: option.splits)

lemma skip_simps [simp]: "fst (skip m) = None" "snd (skip m) = m"
  by (simp_all add: skip_def)

lemma tool_calls_cong: "tool_usage m' = tool_usage m \<Longrightarrow> tool_calls m' k = tool_calls m k"
  by (simp add: tool_calls_def)

lemma tool_get_cong: "tool_token_usage m' = tool_token_usage m \<Longrightarrow> tool_get m' k = tool_get m k"
  by (simp add: tool_get_def)

lemma agent_get_cong: "agent_usage m' = agent_usage m \<Longrightarrow> agent_get m' k = agent_get m k"
  by (simp add: agent_get_def)

subsection \<open>tool_add\<close>

lemma tool_add_fst_None:
  "fst (tool_add k add usage key m) = None \<longleftrightarrow> (\<exists>v. usage_operand usage key = Inr v)"
  by (cases "usage_operand usage key") (simp_all add: tool_add_def)

lemma tool_add_frame:
  "tool_usage (snd (tool_add k add usage key m)) = tool_usage m"
  "agent_usage (snd (tool_add k add usage key m)) = agent_usage m"
  "sessions_analyzed (snd (tool_add k add usage key m)) = sessions_analyzed m"
  by (cases "usage_operand usage key"; simp add: tool_add_def)+

lemma tool_add_other:
  "k' \<noteq> k \<Longrightarrow> tool_get (snd (tool_add k add usage key m)) k' = tool_get m k'"
  by (cases "usage_operand usage key") (simp_all add: tool_add_def tool_get_def update_conv')

lemma tool_add_same:
  "tool_get (snd (tool_add k add usage key m)) k =
     (case usage_operand usage key of Inl e \<Rightarrow> tool_get m k | Inr v \<Rightarrow> add v (tool_get m k))"
  by (cases "usage_operand usage key") (simp_all add: tool_add_def tool_get_def update_conv')

lemma tool_add_keys:
  "fst ` set (tool_token_usage (snd (tool_add k add usage key m))) = insert k (fst ` set (tool_token_usage m))"
  by (cases "usage_operand usage key") (simp_all add: tool_add_def dom_update)

subsection \<open>track_tool_tokens\<close>

lemma track_tool_tokens_post:
  assumes "Q m"
    and "\<And>k add usage key m'.
           \<lbrakk>py_hash_key n = Some k; py_get msg ''usage'' (JObj []) = Inr usage;
            key \<in> {''input_tokens'', ''output_tokens'', ''cache_creation_input_tokens'',
                    ''cache_read_input_tokens''};
            \<And>v r. 0 \<le> v \<Longrightarrow>
               input_tokens r \<le> input_tokens (add v r) \<and> output_tokens r \<le> output_tokens (add v r)
               \<and> cache_creation_tokens r \<le> cache_creation_tokens (add v r)
               \<and> cache_read_tokens r \<le> cache_read_tokens (add v r);
            Q m'\<rbrakk>
           \<Longrightarrow> Q (snd (tool_add k add usage key m'))"
  shows "Q (snd (track_tool_tokens n msg m))"
proof (cases "py_get msg ''usage'' (JObj [])")
  case (Inl e)
  then show ?thesis using assms(1) by (simp add: track_tool_tokens_def)
next
  case (Inr usage)
  show ?thesis
  proof (cases "py_hash_key n")
    case None
    then show ?thesis using Inr assms(1) by (simp add: track_tool_tokens_def)
  next
    case (Some k)
    show ?thesis
      unfolding track_tool_tokens_def Inr Some sum.case option.case
      apply (rule then_do_post [where Q = Q])
       apply (rule assms(2) [OF Some Inr _ _ assms(1)]; simp)
      apply (rule then_do_post [where Q = Q])
       apply (rule assms(2) [OF Some Inr]; simp)
      apply (rule then_do_post [where Q = Q])
       apply (rule assms(2) [OF Some Inr]; simp)
      apply (rule assms(2) [OF Some Inr]; simp)
      done
  qed
qed

lemma track_tool_tokens_frame:
  "tool_usage (snd (track_tool_tokens n msg m)) = tool_usage m"
  "agent_usage (snd (track_tool_tokens n msg m)) = agent_usage m"
  "sessions_analyzed (snd (track_tool_tokens n msg m)) = sessions_analyzed m"
  by (rule track_tool_tokens_post [where Q = "\<lambda>x. tool_usage x = tool_usage m"], simp_all add: tool_add_frame)
     (rule track_tool_tokens_post [where Q = "\<lambda>x. agent_usage x = agent_usage m"], simp_all add: tool_add_frame,
      rule track_tool_tokens_post [where Q = "\<lambda>x. sessions_analyzed x = sessions_analyzed m"], simp_all add: tool_add_frame)

lemma track_tool_tokens_other:
  "py_hash_key n \<noteq> Some k' \<Longrightarrow> tool_get (snd (track_tool_tokens n msg m)) k' = tool_get m k'"
  by (rule track_tool_tokens_post [where Q = "\<lambda>x. tool_get x k' = tool_get m k'"]) (auto simp add: tool_add_other)

lemma track_tool_tokens_keys:
  "fst ` set (tool_token_usage (snd (track_tool_tokens n msg m)))
     \<subseteq> fst ` set (tool_token_usage m) \<union> set_option (py_hash_key n)"
  by (rule track_tool_tokens_post [where Q = "\<lambda>x. fst ` set (tool_token_usage x)
     \<subseteq> fst ` set (tool_token_usage m) \<union> set_option (py_hash_key n)"]) (auto simp add: tool_add_keys)

lemma track_tool_tokens_ok:
  assumes "fst (track_tool_tokens n msg m) = None"
  shows "\<exists>k. py_hash_key n = Some k \<and>
     tool_get (snd (track_tool_tokens n msg m)) k =
       \<lparr>input_tokens = input_tokens (tool_get m k) + usage_amount msg ''input_tokens'',
        output_tokens = output_tokens (tool_get m k) + usage_amount msg ''output_tokens'',
        cache_creation_tokens = cache_creation_tokens (tool_get m k) + usage_amount msg ''cache_creation_input_tokens'',
        cache_read_tokens = cache_read_tokens (tool_get m k) + usage_amount msg ''cache_read_input_tokens''\<rparr>
     \<and> fst ` set (tool_token_usage (snd (track_tool_tokens n msg m))) = insert k (fst ` set (tool_token_usage m))"
proof -
  obtain usage where u: "py_get msg ''usage'' (JObj []) = Inr usage"
    using assms by (cases "py_get msg ''usage'' (JObj [])") (simp_all add: track_tool_tokens_def)
  obtain k where k: "py_hash_key n = Some k"
    using assms u by (cases "py_hash_key n") (simp_all add: track_tool_tokens_def)
  note ok = assms [unfolded track_tool_tokens_def u k sum.case option.case fst_then_do_None tool_add_fst_None]
  obtain v1 v2 v3 v4 where v:
    "usage_operand usage ''input_tokens'' = Inr v1"
    "usage_operand usage ''output_tokens'' = Inr v2"
    "usage_operand usage ''cache_creation_input_tokens'' = Inr v3"
    "usage_operand usage ''cache_read_input_tokens'' = Inr v4"
    using ok by blast
  have amt: "usage_amount msg ''input_tokens'' = v1" "usage_amount msg ''output_tokens'' = v2"
    "usage_amount msg ''cache_creation_input_tokens'' = v3" "usage_amount msg ''cache_read_input_tokens'' = v4"
    by (simp_all add: usage_amount_def u v)
  have "tool_get (snd (track_tool_tokens n msg m)) k =
       \<lparr>input_tokens = input_tokens (tool_get m k) + v1,
        output_tokens = output_tokens (tool_get m k) + v2,
        cache_creation_tokens = cache_creation_tokens (tool_get m k) + v3,
        cache_read_tokens = cache_read_tokens (tool_get m k) + v4\<rparr>"
    unfolding track_tool_tokens_def u k sum.case option.case
    by (simp add: snd_then_do_ok tool_add_fst_None v tool_add_same)
  moreover have "fst ` set (tool_token_usage (snd (track_tool_tokens n msg m))) = insert k (fst ` set (tool_token_usage m))"
    unfolding track_tool_tokens_def u k sum.case option.case
    by (simp add: snd_then_do_ok tool_add_fst_None v tool_add_keys)
  ultimately show ?thesis using k amt by simp
qed

subsection \<open>Association lists\<close>

lemma set_update_subset: "set (AList.update k v al) \<subseteq> insert (k, v) (set al)"
  by (induction al) auto

lemma update_all:
  "\<forall>p \<in> set al. P (snd p) \<Longrightarrow> P v \<Longrightarrow> \<forall>p \<in> set (AList.update k v al). P (snd p)"
  by (induction al) auto

lemma sum_list_update:
  fixes g :: "'v \<Rightarrow> int"
  shows "sum_list (map (\<lambda>p. g (snd p)) (AList.update k v al))
     = sum_list (map (\<lambda>p. g (snd p)) al) + g v - (case map_of al k of None \<Rightarrow> 0 | Some w \<Rightarrow> g w)"
  by (induction al) auto

lemma map_of_in_set: "map_of al k = Some v \<Longrightarrow> (k, v) \<in> set al"
  by (rule map_of_SomeD)

subsection \<open>incr_tool_usage\<close>

lemma incr_tool_usage_fst_None:
  "fst (incr_tool_usage n m) = None \<longleftrightarrow> (\<exists>k. py_hash_key n = Some k)"
  by (cases "py_hash_key n") (simp_all add: incr_tool_usage_def)

lemma incr_tool_usage_frame:
  "agent_usage (snd (incr_tool_usage n m)) = agent_usage m"
  "tool_token_usage (snd (incr_tool_usage n m)) = tool_token_usage m"
  "sessions_analyzed (snd (incr_tool_usage n m)) = sessions_analyzed m"
  by (cases "py_hash_key n"; simp add: incr_tool_usage_def)+

lemma incr_tool_usage_calls:
  "tool_calls (snd (incr_tool_usage n m)) k =
     (if py_hash_key n = Some k then tool_calls m k + 1 else tool_calls m k)"
  by (cases "py_hash_key n") (auto simp add: incr_tool_usage_def tool_calls_def update_conv')

lemma incr_tool_usage_keys:
  "fst ` set (tool_usage (snd (incr_tool_usage n m))) = fst ` set (tool_usage m) \<union> set_option (py_hash_key n)"
  by (cases "py_hash_key n") (auto simp add: incr_tool_usage_def dom_update)

lemma incr_tool_usage_positive:
  assumes "\<forall>p \<in> set (tool_usage m). 1 \<le> snd p"
  shows "\<forall>p \<in> set (tool_usage (snd (incr_tool_usage n m))). 1 \<le> snd p"
proof (cases "py_hash_key n")
  case None
  then show ?thesis using assms by (simp add: incr_tool_usage_def)
next
  case (Some k)
  have "0 \<le> tool_calls m k"
    using assms by (auto simp add: tool_calls_def split: option.splits dest!: map_of_SomeD)
  then have "\<forall>p \<in> set (AList.update k (tool_calls m k + 1) (tool_usage m)). 1 \<le> snd p"
    by (intro update_all assms) simp
  then show ?thesis using Some by (simp add: incr_tool_usage_def)
qed

subsection \<open>The statements on an agent's record\<close>

lemma agent_incr_fst [simp]: "fst (agent_incr k m) = None"
  by (simp add: agent_incr_def)

lemma agent_incr_frame:
  "tool_usage (snd (agent_incr k m)) = tool_usage m"
  "tool_token_usage (snd (agent_incr k m)) = tool_token_usage m"
  "sessions_analyzed (snd (agent_incr k m)) = sessions_analyzed m"
  by (simp_all add: agent_incr_def)

lemma agent_incr_get:
  "agent_get (snd (agent_incr k m)) k' =
     (if k' = k then (agent_get m k)\<lparr>count := count (agent_get m k) + 1\<rparr> else agent_get m k')"
  by (simp add: agent_incr_def agent_get_def update_conv')

lemma agent_incr_keys:
  "fst ` set (agent_usage (snd (agent_incr k m))) = insert k (fst ` set (agent_usage m))"
  by (simp add: agent_incr_def dom_update)

lemma agent_incr_total:
  "total_agent_invocations (snd (agent_incr k m)) = total_agent_invocations m + 1"
  by (simp add: agent_incr_def total_agent_invocations_def sum_list_update agent_get_def agent_default_def
      split: option.splits)

lemma agent_add_fst_None:
  "fst (agent_add k add usage key m) = None \<longleftrightarrow> (\<exists>v. usage_operand usage key = Inr v)"
  by (cases "usage_operand usage key") (simp_all add: agent_add_def)

lemma agent_add_frame:
  "tool_usage (snd (agent_add k add usage key m)) = tool_usage m"
  "tool_token_usage (snd (agent_add k add usage key m)) = tool_token_usage m"
  "sessions_analyzed (snd (agent_add k add usage key m)) = sessions_analyzed m"
  by (cases "usage_operand usage key"; simp add: agent_add_def)+

lemma agent_add_other:
  "k' \<noteq> k \<Longrightarrow> agent_get (snd (agent_add k add usage key m)) k' = agent_get m k'"
  by (cases "usage_operand usage key") (simp_all add: agent_add_def agent_get_def update_conv')

lemma agent_add_same:
  "agent_get (snd (agent_add k add usage key m)) k =
     (case usage_operand usage key of Inl e \<Rightarrow> agent_get m k | Inr v \<Rightarrow> add v (agent_get m k))"
  by (cases "usage_operand usage key") (simp_all add: agent_add_def agent_get_def update_conv')

lemma agent_add_keys:
  "fst ` set (agent_usage (snd (agent_add k add usage key m))) = insert k (fst ` set (agent_usage m))"
  by (cases "usage_operand usage key") (simp_all add: agent_add_def dom_update)

lemma agent_add_total:
  assumes "\<And>v r. count (add v r) = count r"
  shows "total_agent_invocations (snd (agent_add k add usage key m)) = total_agent_invocations m"
  by (cases "usage_operand usage key")
     (simp_all add: agent_add_def total_agent_invocations_def sum_list_update agent_get_def
        agent_default_def assms split: option.splits)

lemma agent_add_session_fst_None:
  "fst (agent_add_session k sid m) = None \<longleftrightarrow> (truthy sid \<longrightarrow> (\<exists>s. py_hash_key sid = Some s))"
  by (cases "py_hash_key sid") (simp_all add: agent_add_session_def)

lemma agent_add_session_frame:
  "tool_usage (snd (agent_add_session k sid m)) = tool_usage m"
  "tool_token_usage (snd (agent_add_session k sid m)) = tool_token_usage m"
  "sessions_analyzed (snd (agent_add_session k sid m)) = sessions_analyzed m"
  by (cases "py_hash_key sid"; simp add: agent_add_session_def)+

lemma agent_add_session_other:
  "k' \<noteq> k \<Longrightarrow> agent_get (snd (agent_add_session k sid m)) k' = agent_get m k'"
  by (cases "py_hash_key sid") (simp_all add: agent_add_session_def agent_get_def update_conv')

lemma agent_add_session_same:
  "agent_get (snd (agent_add_session k sid m)) k =
     (if truthy sid then
        (case py_hash_key sid of
           None \<Rightarrow> agent_get m k
         | Some s \<Rightarrow> (agent_get m k)\<lparr>sessions := insert s (sessions (agent_get m k))\<rparr>)
      else agent_get m k)"
  by (cases "py_hash_key sid") (simp_all add: agent_add_session_def agent_get_def update_conv')

lemma agent_add_session_keys:
  "fst ` set (agent_usage (snd (agent_add_session k sid m))) \<subseteq> insert k (fst ` set (agent_usage m))"
  by (cases "py_hash_key sid") (auto simp add: agent_add_session_def dom_update)

lemma agent_add_session_total:
  "total_agent_invocations (snd (agent_add_session k sid m)) = total_agent_invocations m"
  by (cases "py_hash_key sid")
     (simp_all add: agent_add_session_def total_agent_invocations_def sum_list_update agent_get_def
        agent_default_def split: option.splits)

subsection \<open>track_agent_usage\<close>

lemma track_agent_usage_post:
  assumes base: "R m"
    and incr: "\<And>k. py_hash_key a = Some k \<Longrightarrow> P k (snd (agent_incr k m))"
    and add: "\<And>k add usage key m'.
           \<lbrakk>py_hash_key a = Some k; py_get msg ''usage'' (JObj []) = Inr usage;
            key \<in> {''input_tokens'', ''output_tokens'', ''cache_creation_input_tokens'',
                    ''cache_read_input_tokens''};
            \<And>v r. count (add v r) = count r;
            \<And>v r. 0 \<le> v \<Longrightarrow>
               total_input_tokens r \<le> total_input_tokens (add v r)
               \<and> total_output_tokens r \<le> total_output_tokens (add v r)
               \<and> total_cache_creation_tokens r \<le> total_cache_creation_tokens (add v r)
               \<and> total_cache_read_tokens r \<le> total_cache_read_tokens (add v r);
            P k m'\<rbrakk>
           \<Longrightarrow> P k (snd (agent_add k add usage key m'))"
    and sess: "\<And>k m'. \<lbrakk>py_hash_key a = Some k; P k m'\<rbrakk> \<Longrightarrow> P k (snd (agent_add_session k sid m'))"
    and fin: "\<And>k m'. \<lbrakk>py_hash_key a = Some k; P k m'\<rbrakk> \<Longrightarrow> R m'"
  shows "R (snd (track_agent_usage a msg sid m))"
proof (cases "py_get msg ''usage'' (JObj [])")
  case (Inl e)
  then show ?thesis using base by (simp add: track_agent_usage_def)
next
  case (Inr usage)
  show ?thesis
  proof (cases "py_hash_key a")
    case None
    then show ?thesis using Inr base by (simp add: track_agent_usage_def)
  next
    case (Some k)
    have "P k (snd (track_agent_usage a msg sid m))"
      unfolding track_agent_usage_def Inr Some sum.case option.case
      apply (rule then_do_post [where Q = "P k"])
       apply (rule incr [OF Some])
      apply (rule then_do_post [where Q = "P k"])
       apply (rule add [OF Some Inr]; simp)
      apply (rule then_do_post [where Q = "P k"])
       apply (rule add [OF Some Inr]; simp)
      apply (rule then_do_post [where Q = "P k"])
       apply (rule add [OF Some Inr]; simp)
      apply (rule then_do_post [where Q = "P k"])
       apply (rule add [OF Some Inr]; simp)
      apply (erule sess [OF Some])
      done
    then show ?thesis by (rule fin [OF Some])
  qed
qed

lemma track_agent_usage_frame:
  "tool_usage (snd (track_agent_usage a msg sid m)) = tool_usage m"
  "tool_token_usage (snd (track_agent_usage a msg sid m)) = tool_token_usage m"
  "sessions_analyzed (snd (track_agent_usage a msg sid m)) = sessions_analyzed m"
    apply (rule track_agent_usage_post [where R = "\<lambda>x. tool_usage x = tool_usage m"
        and P = "\<lambda>k x. tool_usage x = tool_usage m"];
      simp add: agent_incr_frame agent_add_frame agent_add_session_frame)
   apply (rule track_agent_usage_post [where R = "\<lambda>x. tool_token_usage x = tool_token_usage m"
        and P = "\<lambda>k x. tool_token_usage x = tool_token_usage m"];
      simp add: agent_incr_frame agent_add_frame agent_add_session_frame)
  apply (rule track_agent_usage_post [where R = "\<lambda>x. sessions_analyzed x = sessions_analyzed m"
        and P = "\<lambda>k x. sessions_analyzed x = sessions_analyzed m"];
      simp add: agent_incr_frame agent_add_frame agent_add_session_frame)
  done

lemma track_agent_usage_other:
  "py_hash_key a \<noteq> Some k' \<Longrightarrow> agent_get (snd (track_agent_usage a msg sid m)) k' = agent_get m k'"
  by (rule track_agent_usage_post [where R = "\<lambda>x. agent_get x k' = agent_get m k'"
        and P = "\<lambda>k x. agent_get x k' = agent_get m k'"])
     (auto simp add: agent_incr_get agent_add_other agent_add_session_other)

lemma track_agent_usage_total:
  "total_agent_invocations (snd (track_agent_usage a msg sid m)) \<le> total_agent_invocations m + 1"
  by (rule track_agent_usage_post [where R = "\<lambda>x. total_agent_invocations x \<le> total_agent_invocations m + 1"
        and P = "\<lambda>k x. total_agent_invocations x \<le> total_agent_invocations m + 1"])
     (simp_all add: agent_incr_total agent_add_total agent_add_session_total)

lemma agent_get_positive:
  assumes "\<forall>p \<in> set (agent_usage m). 1 \<le> count (snd p)" and "k \<in> fst ` set (agent_usage m)"
  shows "1 \<le> count (agent_get m k)"
proof -
  from assms(2) obtain r where r: "map_of (agent_usage m) k = Some r"
    by (cases "map_of (agent_usage m) k") (auto simp add: map_of_eq_None_iff)
  then have "1 \<le> count r" using assms(1) by (auto dest!: map_of_SomeD)
  then show ?thesis by (simp add: agent_get_def r)
qed

lemma track_agent_usage_positive:
  assumes "\<forall>p \<in> set (agent_usage m). 1 \<le> count (snd p)"
  shows "\<forall>p \<in> set (agent_usage (snd (track_agent_usage a msg sid m))). 1 \<le> count (snd p)"
proof (rule track_agent_usage_post [where R = "\<lambda>x. \<forall>p \<in> set (agent_usage x). 1 \<le> count (snd p)"
        and P = "\<lambda>k x. (\<forall>p \<in> set (agent_usage x). 1 \<le> count (snd p)) \<and> k \<in> fst ` set (agent_usage x)"])
  show "\<forall>p \<in> set (agent_usage m). 1 \<le> count (snd p)" by (rule assms)
next
  fix k
  have "0 \<le> count (agent_get m k)"
    using assms by (auto simp add: agent_get_def agent_default_def split: option.splits dest!: map_of_SomeD)
  then have "\<forall>p \<in> set (AList.update k ((agent_get m k)\<lparr>count := count (agent_get m k) + 1\<rparr>) (agent_usage m)).
      1 \<le> count (snd p)"
    by (intro update_all assms) simp
  then show "(\<forall>p \<in> set (agent_usage (snd (agent_incr k m))). 1 \<le> count (snd p))
      \<and> k \<in> fst ` set (agent_usage (snd (agent_incr k m)))"
    by (simp add: agent_incr_keys) (simp add: agent_incr_def)
next
  fix k usage key and add :: "int \<Rightarrow> agent_stats \<Rightarrow> agent_stats" and m' :: monitor
  assume cnt: "\<And>v r. count (add v r) = count r"
    and P: "(\<forall>p \<in> set (agent_usage m'). 1 \<le> count (snd p)) \<and> k \<in> fst ` set (agent_usage m')"
  have one: "1 \<le> count (agent_get m' k)" using P by (simp add: agent_get_positive)
  have upd: "\<forall>p \<in> set (AList.update k r (agent_usage m')). 1 \<le> count (snd p)"
    if "count r = count (agent_get m' k)" for r
    using P one that by (intro update_all) simp_all
  have "\<forall>p \<in> set (agent_usage (snd (agent_add k add usage key m'))). 1 \<le> count (snd p)"
  proof (cases "usage_operand usage key")
    case (Inl e)
    then show ?thesis using upd [of "agent_get m' k"] by (simp add: agent_add_def)
  next
    case (Inr v)
    then show ?thesis using upd [of "add v (agent_get m' k)"] by (simp add: agent_add_def cnt)
  qed
  then show "(\<forall>p \<in> set (agent_usage (snd (agent_add k add usage key m'))). 1 \<le> count (snd p))
      \<and> k \<in> fst ` set (agent_usage (snd (agent_add k add usage key m')))"
    by (simp add: agent_add_keys)
next
  fix k and m' :: monitor
  assume P: "(\<forall>p \<in> set (agent_usage m'). 1 \<le> count (snd p)) \<and> k \<in> fst ` set (agent_usage m')"
  have one: "1 \<le> count (agent_get m' k)" using P by (simp add: agent_get_positive)
  have upd: "\<forall>p \<in> set (AList.update k r (agent_usage m')). 1 \<le> count (snd p)"
    if "count r = count (agent_get m' k)" for r
    using P one that by (intro update_all) simp_all
  have keys: "fst ` set (AList.update k r (agent_usage m')) = fst ` set (agent_usage m')" for r
    using P by (auto simp add: dom_update)
  show "(\<forall>p \<in> set (agent_usage (snd (agent_add_session k sid m'))). 1 \<le> count (snd p))
      \<and> k \<in> fst ` set (agent_usage (snd (agent_add_session k sid m')))"
  proof (cases "py_hash_key sid")
    case None
    then show ?thesis using P upd [of "agent_get m' k"] by (simp add: agent_add_session_def keys)
  next
    case (Some s)
    then show ?thesis
      using P upd [of "(agent_get m' k)\<lparr>sessions := insert s (sessions (agent_get m' k))\<rparr>"]
      by (simp add: agent_add_session_def keys)
  qed
qed simp

lemma track_agent_usage_ok:
  assumes "fst (track_agent_usage a msg sid m) = None"
  shows "\<exists>k. py_hash_key a = Some k \<and>
     agent_get (snd (track_agent_usage a msg sid m)) k =
       \<lparr>count = count (agent_get m k) + 1,
        total_input_tokens = total_input_tokens (agent_get m k) + usage_amount msg ''input_tokens'',
        total_output_tokens = total_output_tokens (agent_get m k) + usage_amount msg ''output_tokens'',
        total_cache_creation_tokens =
          total_cache_creation_tokens (agent_get m k) + usage_amount msg ''cache_creation_input_tokens'',
        total_cache_read_tokens =
          total_cache_read_tokens (agent_get m k) + usage_amount msg ''cache_read_input_tokens'',
        sessions = (if truthy sid then set_option (py_hash_key sid) else {}) \<union> sessions (agent_get m k)\<rparr>"
proof -
  obtain usage where u: "py_get msg ''usage'' (JObj []) = Inr usage"
    using assms by (cases "py_get msg ''usage'' (JObj [])") (simp_all add: track_agent_usage_def)
  obtain k where k: "py_hash_key a = Some k"
    using assms u by (cases "py_hash_key a") (simp_all add: track_agent_usage_def)
  note ok = assms [unfolded track_agent_usage_def u k sum.case option.case fst_then_do_None
      agent_add_fst_None agent_add_session_fst_None agent_incr_fst]
  obtain v1 v2 v3 v4 where v:
    "usage_operand usage ''input_tokens'' = Inr v1"
    "usage_operand usage ''output_tokens'' = Inr v2"
    "usage_operand usage ''cache_creation_input_tokens'' = Inr v3"
    "usage_operand usage ''cache_read_input_tokens'' = Inr v4"
    using ok by blast
  have s: "truthy sid \<longrightarrow> (\<exists>s. py_hash_key sid = Some s)"
    using ok by blast
  have amt: "usage_amount msg ''input_tokens'' = v1" "usage_amount msg ''output_tokens'' = v2"
    "usage_amount msg ''cache_creation_input_tokens'' = v3" "usage_amount msg ''cache_read_input_tokens'' = v4"
    by (simp_all add: usage_amount_def u v)
  have "agent_get (snd (track_agent_usage a msg sid m)) k =
       \<lparr>count = count (agent_get m k) + 1,
        total_input_tokens = total_input_tokens (agent_get m k) + v1,
        total_output_tokens = total_output_tokens (agent_get m k) + v2,
        total_cache_creation_tokens = total_cache_creation_tokens (agent_get m k) + v3,
        total_cache_read_tokens = total_cache_read_tokens (agent_get m k) + v4,
        sessions = (if truthy sid then set_option (py_hash_key sid) else {}) \<union> sessions (agent_get m k)\<rparr>"
    unfolding track_agent_usage_def u k sum.case option.case
    using s
    by (auto simp add: snd_then_do_ok agent_add_fst_None v agent_add_same agent_incr_get
        agent_add_session_same)
  then show ?thesis using k amt by simp
qed

subsection \<open>The branch for Task\<close>

lemma task_branch_cases:
  obtains (unchanged) "snd (task_branch ti msg sid m) = m" "\<not> (\<exists>s. subagent_of ti = Inr s \<and> truthy s)"
  | (tracked) s where "subagent_of ti = Inr s" "truthy s"
      "task_branch ti msg sid m = track_agent_usage s msg sid m"
  by (cases "subagent_of ti") (auto simp add: task_branch_def)

lemma task_branch_fst_unchanged:
  "\<not> (\<exists>s. subagent_of ti = Inr s \<and> truthy s) \<Longrightarrow>
     fst (task_branch ti msg sid m) = None \<longleftrightarrow> (\<exists>s. subagent_of ti = Inr s)"
  by (cases "subagent_of ti") (auto simp add: task_branch_def)

subsection \<open>One item of the content\<close>

lemma process_item_cases:
  obtains (inert) "process_item msg sid item m = (None, m)"
      "\<And>T. T \<noteq> [] \<Longrightarrow> \<not> tool_use_named T item" "\<And>k. \<not> selects_agent k item"
  | (active) kvs n where "item = JObj kvs" "map_of kvs ''type'' = Some (JStr ''tool_use'')"
      "n = dict_get kvs ''name'' JNull" "truthy n"
      "process_item msg sid item m =
         then_do (incr_tool_usage n)
           (then_do (if n = JStr ''Task''
                     then task_branch (dict_get kvs ''input'' (JObj [])) msg sid else skip)
              (track_tool_tokens n msg)) m"
proof (cases item)
  case (JObj kvs)
  show ?thesis
  proof (cases "map_of kvs ''type'' = Some (JStr ''tool_use'') \<and> truthy (dict_get kvs ''name'' JNull)")
    case True
    then show ?thesis using JObj by (intro active [of kvs "dict_get kvs ''name'' JNull"]) (simp_all add: process_item_def Let_def)
  next
    case False
    have "process_item msg sid item m = (None, m)"
      using False JObj by (auto simp add: process_item_def Let_def)
    moreover have "\<not> tool_use_named T item" if "T \<noteq> []" for T
      using False JObj that by (auto simp add: tool_use_named_def dict_get_def)
    moreover have "\<not> selects_agent k item" for k
      using False JObj by (auto simp add: selects_agent_def tool_use_named_def dict_get_def)
    ultimately show ?thesis by (rule inert)
  qed
qed (auto intro!: inert simp add: process_item_def tool_use_named_def selects_agent_def)

lemma active_named:
  assumes "item = JObj kvs" "map_of kvs ''type'' = Some (JStr ''tool_use'')"
    "n = dict_get kvs ''name'' JNull" "truthy n"
  shows "tool_use_named T item \<longleftrightarrow> n = JStr T"
  using assms by (auto simp add: tool_use_named_def dict_get_def split: option.splits)

lemma then_do_post2:
  assumes "P (snd (f m))" and "\<And>x. P x \<Longrightarrow> Q (snd (g x))" and "\<And>x. P x \<Longrightarrow> Q x"
  shows "Q (snd (then_do f g m))"
  using assms by (cases "f m") (auto simp add: then_do_def split: option.splits)

lemma process_item_post:
  assumes base: "Q m"
    and incr: "\<And>kvs n k. \<lbrakk>item = JObj kvs; map_of kvs ''type'' = Some (JStr ''tool_use'');
                  n = dict_get kvs ''name'' JNull; truthy n; py_hash_key n = Some k\<rbrakk>
               \<Longrightarrow> P1 n (snd (incr_tool_usage n m))"
    and task: "\<And>a x. P1 (JStr ''Task'') x \<Longrightarrow> P2 (JStr ''Task'') (snd (track_agent_usage a msg sid x))"
    and notask: "\<And>n x. P1 n x \<Longrightarrow> P2 n x"
    and tok: "\<And>n x. P2 n x \<Longrightarrow> P2 n (snd (track_tool_tokens n msg x))"
    and fin: "\<And>n x. P2 n x \<Longrightarrow> Q x"
  shows "Q (snd (process_item msg sid item m))"
proof (cases rule: process_item_cases [of msg sid item m])
  case inert
  then show ?thesis using base by simp
next
  case (active kvs n)
  show ?thesis
  proof (cases "py_hash_key n")
    case None
    then show ?thesis using base by (simp add: active(5) then_do_def incr_tool_usage_def)
  next
    case (Some k)
    have p1: "P1 n (snd (incr_tool_usage n m))"
      by (rule incr [OF active(1-4) Some])
    have mid: "P2 n (snd ((if n = JStr ''Task''
                     then task_branch (dict_get kvs ''input'' (JObj [])) msg sid else skip) x))"
      if "P1 n x" for x
    proof (cases "n = JStr ''Task''")
      case True
      show ?thesis
      proof (cases rule: task_branch_cases [of "dict_get kvs ''input'' (JObj [])" msg sid x])
        case unchanged
        then show ?thesis using True notask [OF that] by simp
      next
        case (tracked s)
        then show ?thesis using True task [of x s] that by simp
      qed
    next
      case False
      then show ?thesis using notask [OF that] by simp
    qed
    have "P2 n (snd (process_item msg sid item m))"
      unfolding active(5)
      apply (rule then_do_post2 [where P = "P1 n" and Q = "P2 n"])
        apply (rule p1)
       apply (rule then_do_post [where Q = "P2 n"])
        apply (erule mid)
       apply (erule tok)
      apply (erule notask)
      done
    then show ?thesis by (rule fin)
  qed
qed

subsection \<open>Aggregates only grow\<close>

lemma aggregates_le_refl: "aggregates_le m m"
  by (simp add: aggregates_le_def)

lemma aggregates_le_trans: "aggregates_le a b \<Longrightarrow> aggregates_le b c \<Longrightarrow> aggregates_le a c"
  unfolding aggregates_le_def by (meson order_trans)

lemma aggregates_le_session:
  "aggregates_le m (m\<lparr>sessions_analyzed := s\<rparr>)"
  by (simp add: aggregates_le_def tool_calls_def tool_get_def agent_get_def)

lemma incr_tool_usage_le: "aggregates_le m (snd (incr_tool_usage n m))"
  by (simp add: aggregates_le_def incr_tool_usage_calls
      tool_get_cong [OF incr_tool_usage_frame(2)] agent_get_cong [OF incr_tool_usage_frame(1)])

lemma tool_add_le:
  assumes "\<And>v. usage_operand usage key = Inr v \<Longrightarrow> 0 \<le> v"
    and "\<And>v r. 0 \<le> v \<Longrightarrow>
               input_tokens r \<le> input_tokens (add v r) \<and> output_tokens r \<le> output_tokens (add v r)
               \<and> cache_creation_tokens r \<le> cache_creation_tokens (add v r)
               \<and> cache_read_tokens r \<le> cache_read_tokens (add v r)"
  shows "aggregates_le m (snd (tool_add k add usage key m))"
proof -
  have "input_tokens (tool_get m k') \<le> input_tokens (tool_get (snd (tool_add k add usage key m)) k')
      \<and> output_tokens (tool_get m k') \<le> output_tokens (tool_get (snd (tool_add k add usage key m)) k')
      \<and> cache_creation_tokens (tool_get m k') \<le> cache_creation_tokens (tool_get (snd (tool_add k add usage key m)) k')
      \<and> cache_read_tokens (tool_get m k') \<le> cache_read_tokens (tool_get (snd (tool_add k add usage key m)) k')" for k'
  proof (cases "k' = k")
    case True
    show ?thesis
    proof (cases "usage_operand usage key")
      case (Inl e)
      then show ?thesis using True by (simp add: tool_add_same)
    next
      case (Inr v)
      then show ?thesis using True assms(2) [OF assms(1) [OF Inr]] by (simp add: tool_add_same)
    qed
  next
    case False
    then show ?thesis by (simp add: tool_add_other)
  qed
  then show ?thesis
    by (simp add: aggregates_le_def tool_calls_cong [OF tool_add_frame(1)]
        agent_get_cong [OF tool_add_frame(2)])
qed

lemma agent_incr_le: "aggregates_le m (snd (agent_incr k m))"
  by (simp add: aggregates_le_def agent_incr_get
      tool_calls_cong [OF agent_incr_frame(1)] tool_get_cong [OF agent_incr_frame(2)])

lemma agent_add_le:
  assumes "\<And>v. usage_operand usage key = Inr v \<Longrightarrow> 0 \<le> v"
    and "\<And>v r. count (add v r) = count r"
    and "\<And>v r. 0 \<le> v \<Longrightarrow>
               total_input_tokens r \<le> total_input_tokens (add v r)
               \<and> total_output_tokens r \<le> total_output_tokens (add v r)
               \<and> total_cache_creation_tokens r \<le> total_cache_creation_tokens (add v r)
               \<and> total_cache_read_tokens r \<le> total_cache_read_tokens (add v r)"
  shows "aggregates_le m (snd (agent_add k add usage key m))"
proof -
  have "count (agent_get m k') \<le> count (agent_get (snd (agent_add k add usage key m)) k')
      \<and> total_input_tokens (agent_get m k') \<le> total_input_tokens (agent_get (snd (agent_add k add usage key m)) k')
      \<and> total_output_tokens (agent_get m k') \<le> total_output_tokens (agent_get (snd (agent_add k add usage key m)) k')
      \<and> total_cache_creation_tokens (agent_get m k')
          \<le> total_cache_creation_tokens (agent_get (snd (agent_add k add usage key m)) k')
      \<and> total_cache_read_tokens (agent_get m k')
          \<le> total_cache_read_tokens (agent_get (snd (agent_add k add usage key m)) k')" for k'
  proof (cases "k' = k")
    case True
    show ?thesis
    proof (cases "usage_operand usage key")
      case (Inl e)
      then show ?thesis using True by (simp add: agent_add_same)
    next
      case (Inr v)
      then show ?thesis using True assms(3) [OF assms(1) [OF Inr]] by (simp add: agent_add_same assms(2))
    qed
  next
    case False
    then show ?thesis by (simp add: agent_add_other)
  qed
  then show ?thesis
    by (simp add: aggregates_le_def tool_calls_cong [OF agent_add_frame(1)]
        tool_get_cong [OF agent_add_frame(2)])
qed

lemma agent_add_session_le: "aggregates_le m (snd (agent_add_session k sid m))"
proof -
  have "count (agent_get (snd (agent_add_session k sid m)) k') = count (agent_get m k')
      \<and> total_input_tokens (agent_get (snd (agent_add_session k sid m)) k') = total_input_tokens (agent_get m k')
      \<and> total_output_tokens (agent_get (snd (agent_add_session k sid m)) k') = total_output_tokens (agent_get m k')
      \<and> total_cache_creation_tokens (agent_get (snd (agent_add_session k sid m)) k')
          = total_cache_creation_tokens (agent_get m k')
      \<and> total_cache_read_tokens (agent_get (snd (agent_add_session k sid m)) k')
          = total_cache_read_tokens (agent_get m k')" for k'
    by (cases "k' = k"; cases "py_hash_key sid")
       (simp_all add: agent_add_session_same agent_add_session_other)
  then show ?thesis
    by (simp add: aggregates_le_def tool_calls_cong [OF agent_add_session_frame(1)]
        tool_get_cong [OF agent_add_session_frame(2)])
qed

lemma operand_nonneg:
  assumes "py_get msg ''usage'' (JObj []) = Inr usage" and "0 \<le> usage_amount msg key"
    and "usage_operand usage key = Inr v"
  shows "0 \<le> v"
  using assms by (simp add: usage_amount_def)

lemma track_tool_tokens_le:
  assumes "0 \<le> usage_amount msg ''input_tokens''" "0 \<le> usage_amount msg ''output_tokens''"
    "0 \<le> usage_amount msg ''cache_creation_input_tokens''" "0 \<le> usage_amount msg ''cache_read_input_tokens''"
  shows "aggregates_le m (snd (track_tool_tokens n msg m))"
proof (rule track_tool_tokens_post [where Q = "aggregates_le m"])
  show "aggregates_le m m" by (rule aggregates_le_refl)
next
  fix k usage key and add :: "int \<Rightarrow> tool_tokens \<Rightarrow> tool_tokens" and m' :: monitor
  assume u: "py_get msg ''usage'' (JObj []) = Inr usage"
    and key: "key \<in> {''input_tokens'', ''output_tokens'', ''cache_creation_input_tokens'',
                    ''cache_read_input_tokens''}"
    and mono: "\<And>v r. 0 \<le> v \<Longrightarrow>
               input_tokens r \<le> input_tokens (add v r) \<and> output_tokens r \<le> output_tokens (add v r)
               \<and> cache_creation_tokens r \<le> cache_creation_tokens (add v r)
               \<and> cache_read_tokens r \<le> cache_read_tokens (add v r)"
    and le: "aggregates_le m m'"
  have "0 \<le> usage_amount msg key" using key assms by auto
  then have "aggregates_le m' (snd (tool_add k add usage key m'))"
    by (intro tool_add_le mono) (rule operand_nonneg [OF u])
  then show "aggregates_le m (snd (tool_add k add usage key m'))"
    using le by (rule aggregates_le_trans [rotated])
qed

lemma track_agent_usage_le:
  assumes "0 \<le> usage_amount msg ''input_tokens''" "0 \<le> usage_amount msg ''output_tokens''"
    "0 \<le> usage_amount msg ''cache_creation_input_tokens''" "0 \<le> usage_amount msg ''cache_read_input_tokens''"
  shows "aggregates_le m (snd (track_agent_usage a msg sid m))"
proof (rule track_agent_usage_post [where R = "aggregates_le m" and P = "\<lambda>k. aggregates_le m"])
  show "aggregates_le m m" by (rule aggregates_le_refl)
next
  fix k show "aggregates_le m (snd (agent_incr k m))" by (rule agent_incr_le)
next
  fix k usage key and add :: "int \<Rightarrow> agent_stats \<Rightarrow> agent_stats" and m' :: monitor
  assume u: "py_get msg ''usage'' (JObj []) = Inr usage"
    and key: "key \<in> {''input_tokens'', ''output_tokens'', ''cache_creation_input_tokens'',
                    ''cache_read_input_tokens''}"
    and cnt: "\<And>v r. count (add v r) = count r"
    and mono: "\<And>v r. 0 \<le> v \<Longrightarrow>
               total_input_tokens r \<le> total_input_tokens (add v r)
               \<and> total_output_tokens r \<le> total_output_tokens (add v r)
               \<and> total_cache_creation_tokens r \<le> total_cache_creation_tokens (add v r)
               \<and> total_cache_read_tokens r \<le> total_cache_read_tokens (add v r)"
    and le: "aggregates_le m m'"
  have "0 \<le> usage_amount msg key" using key assms by auto
  then have "aggregates_le m' (snd (agent_add k add usage key m'))"
    by (intro agent_add_le mono cnt) (rule operand_nonneg [OF u])
  then show "aggregates_le m (snd (agent_add k add usage key m'))"
    using le by (rule aggregates_le_trans [rotated])
next
  fix k and m' :: monitor
  assume "aggregates_le m m'"
  then show "aggregates_le m (snd (agent_add_session k sid m'))"
    using agent_add_session_le by (rule aggregates_le_trans)
qed

lemma process_item_le:
  assumes "0 \<le> usage_amount msg ''input_tokens''" "0 \<le> usage_amount msg ''output_tokens''"
    "0 \<le> usage_amount msg ''cache_creation_input_tokens''" "0 \<le> usage_amount msg ''cache_read_input_tokens''"
  shows "aggregates_le m (snd (process_item msg sid item m))"
proof (rule process_item_post [where Q = "aggregates_le m" and ?P1.0 = "\<lambda>n. aggregates_le m"
      and ?P2.0 = "\<lambda>n. aggregates_le m"])
  show "aggregates_le m m" by (rule aggregates_le_refl)
next
  fix n show "aggregates_le m (snd (incr_tool_usage n m))" by (rule incr_tool_usage_le)
next
  fix a x assume "aggregates_le m x"
  then show "aggregates_le m (snd (track_agent_usage a msg sid x))"
    using track_agent_usage_le [OF assms] by (rule aggregates_le_trans)
next
  fix n x assume "aggregates_le m x"
  then show "aggregates_le m (snd (track_tool_tokens n msg x))"
    using track_tool_tokens_le [OF assms] by (rule aggregates_le_trans)
qed

subsection \<open>Invariants of one item\<close>

lemma process_item_sessions:
  "sessions_analyzed (snd (process_item msg sid item m)) = sessions_analyzed m"
  by (rule process_item_post [where Q = "\<lambda>x. sessions_analyzed x = sessions_analyzed m"
        and ?P1.0 = "\<lambda>n x. sessions_analyzed x = sessions_analyzed m"
        and ?P2.0 = "\<lambda>n x. sessions_analyzed x = sessions_analyzed m"])
     (simp_all add: incr_tool_usage_frame track_agent_usage_frame track_tool_tokens_frame)

lemma process_item_tool_positive:
  assumes "\<forall>p \<in> set (tool_usage m). 1 \<le> snd p"
  shows "\<forall>p \<in> set (tool_usage (snd (process_item msg sid item m))). 1 \<le> snd p"
proof (rule process_item_post [where Q = "\<lambda>x. \<forall>p \<in> set (tool_usage x). 1 \<le> snd p"
        and ?P1.0 = "\<lambda>n x. \<forall>p \<in> set (tool_usage x). 1 \<le> snd p"
        and ?P2.0 = "\<lambda>n x. \<forall>p \<in> set (tool_usage x). 1 \<le> snd p"])
  fix n show "\<forall>p \<in> set (tool_usage (snd (incr_tool_usage n m))). 1 \<le> snd p"
    by (rule incr_tool_usage_positive [OF assms])
qed (simp_all add: assms track_agent_usage_frame track_tool_tokens_frame)

lemma process_item_agent_positive:
  assumes "\<forall>p \<in> set (agent_usage m). 1 \<le> count (snd p)"
  shows "\<forall>p \<in> set (agent_usage (snd (process_item msg sid item m))). 1 \<le> count (snd p)"
  by (rule process_item_post [where Q = "\<lambda>x. \<forall>p \<in> set (agent_usage x). 1 \<le> count (snd p)"
        and ?P1.0 = "\<lambda>n x. \<forall>p \<in> set (agent_usage x). 1 \<le> count (snd p)"
        and ?P2.0 = "\<lambda>n x. \<forall>p \<in> set (agent_usage x). 1 \<le> count (snd p)"])
     (simp_all add: assms incr_tool_usage_frame track_agent_usage_positive track_tool_tokens_frame)

lemma process_item_keys_subset:
  assumes "fst ` set (tool_token_usage m) \<subseteq> fst ` set (tool_usage m)"
  shows "fst ` set (tool_token_usage (snd (process_item msg sid item m)))
     \<subseteq> fst ` set (tool_usage (snd (process_item msg sid item m)))"
proof (rule process_item_post [where Q = "\<lambda>x. fst ` set (tool_token_usage x) \<subseteq> fst ` set (tool_usage x)"
        and ?P1.0 = "\<lambda>n x. fst ` set (tool_token_usage x) \<subseteq> fst ` set (tool_usage x)
            \<and> set_option (py_hash_key n) \<subseteq> fst ` set (tool_usage x)"
        and ?P2.0 = "\<lambda>n x. fst ` set (tool_token_usage x) \<subseteq> fst ` set (tool_usage x)
            \<and> set_option (py_hash_key n) \<subseteq> fst ` set (tool_usage x)"])
  fix n and x :: monitor
  assume "fst ` set (tool_token_usage x) \<subseteq> fst ` set (tool_usage x)
      \<and> set_option (py_hash_key n) \<subseteq> fst ` set (tool_usage x)"
  then show "fst ` set (tool_token_usage (snd (track_tool_tokens n msg x)))
        \<subseteq> fst ` set (tool_usage (snd (track_tool_tokens n msg x)))
      \<and> set_option (py_hash_key n) \<subseteq> fst ` set (tool_usage (snd (track_tool_tokens n msg x)))"
    using track_tool_tokens_keys [of n msg x] by (simp add: track_tool_tokens_frame) blast
qed (use assms in \<open>auto simp add: incr_tool_usage_frame incr_tool_usage_keys track_agent_usage_frame\<close>)

lemma process_item_task_slack:
  "total_agent_invocations (snd (process_item msg sid item m)) - total_agent_invocations m
     \<le> tool_calls (snd (process_item msg sid item m)) (KStr ''Task'') - tool_calls m (KStr ''Task'')"
proof (rule process_item_post [where
      Q = "\<lambda>x. total_agent_invocations x - total_agent_invocations m
                \<le> tool_calls x (KStr ''Task'') - tool_calls m (KStr ''Task'')"
      and ?P1.0 = "\<lambda>n x. total_agent_invocations x = total_agent_invocations m
                \<and> tool_calls x (KStr ''Task'') =
                    tool_calls m (KStr ''Task'') + (if n = JStr ''Task'' then 1 else 0)"
      and ?P2.0 = "\<lambda>n x. total_agent_invocations x - total_agent_invocations m
                \<le> tool_calls x (KStr ''Task'') - tool_calls m (KStr ''Task'')"])
  fix kvs n k
  assume "truthy n" "py_hash_key n = Some k"
  moreover have "py_hash_key n = Some (KStr ''Task'') \<longleftrightarrow> n = JStr ''Task''"
    by (cases n) (auto split: if_splits)
  ultimately show "total_agent_invocations (snd (incr_tool_usage n m)) = total_agent_invocations m
      \<and> tool_calls (snd (incr_tool_usage n m)) (KStr ''Task'') =
          tool_calls m (KStr ''Task'') + (if n = JStr ''Task'' then 1 else 0)"
    by (simp add: incr_tool_usage_calls total_agent_invocations_def incr_tool_usage_frame)
next
  fix a and x :: monitor
  assume "total_agent_invocations x = total_agent_invocations m
      \<and> tool_calls x (KStr ''Task'') =
          tool_calls m (KStr ''Task'') + (if JStr ''Task'' = JStr ''Task'' then 1 else 0)"
  then show "total_agent_invocations (snd (track_agent_usage a msg sid x)) - total_agent_invocations m
      \<le> tool_calls (snd (track_agent_usage a msg sid x)) (KStr ''Task'') - tool_calls m (KStr ''Task'')"
    using track_agent_usage_total [of a msg sid x]
    by (simp add: tool_calls_cong [OF track_agent_usage_frame(1)])
next
  fix n and x :: monitor
  assume "total_agent_invocations x - total_agent_invocations m
      \<le> tool_calls x (KStr ''Task'') - tool_calls m (KStr ''Task'')"
  then show "total_agent_invocations (snd (track_tool_tokens n msg x)) - total_agent_invocations m
      \<le> tool_calls (snd (track_tool_tokens n msg x)) (KStr ''Task'') - tool_calls m (KStr ''Task'')"
    by (simp add: tool_calls_cong [OF track_tool_tokens_frame(1)] total_agent_invocations_def
        track_tool_tokens_frame)
qed auto

lemma process_item_calls_bounds:
  assumes "T \<noteq> []"
  shows "tool_calls m (KStr T) \<le> tool_calls (snd (process_item msg sid item m)) (KStr T)
     \<and> tool_calls (snd (process_item msg sid item m)) (KStr T)
        \<le> tool_calls m (KStr T) + (if tool_use_named T item then 1 else 0)"
proof (rule process_item_post [where
      Q = "\<lambda>x. tool_calls m (KStr T) \<le> tool_calls x (KStr T)
             \<and> tool_calls x (KStr T) \<le> tool_calls m (KStr T) + (if tool_use_named T item then 1 else 0)"
      and ?P1.0 = "\<lambda>n x. tool_calls m (KStr T) \<le> tool_calls x (KStr T)
             \<and> tool_calls x (KStr T) \<le> tool_calls m (KStr T) + (if tool_use_named T item then 1 else 0)"
      and ?P2.0 = "\<lambda>n x. tool_calls m (KStr T) \<le> tool_calls x (KStr T)
             \<and> tool_calls x (KStr T) \<le> tool_calls m (KStr T) + (if tool_use_named T item then 1 else 0)"])
  fix kvs n k
  assume a: "item = JObj kvs" "map_of kvs ''type'' = Some (JStr ''tool_use'')"
    "n = dict_get kvs ''name'' JNull" "truthy n"
  have "py_hash_key n = Some (KStr T) \<longleftrightarrow> n = JStr T"
    by (cases n) (auto split: if_splits)
  then show "tool_calls m (KStr T) \<le> tool_calls (snd (incr_tool_usage n m)) (KStr T)
      \<and> tool_calls (snd (incr_tool_usage n m)) (KStr T)
          \<le> tool_calls m (KStr T) + (if tool_use_named T item then 1 else 0)"
    by (simp add: incr_tool_usage_calls active_named [OF a])
qed (simp_all add: tool_calls_cong [OF track_agent_usage_frame(1)]
      tool_calls_cong [OF track_tool_tokens_frame(1)])

subsection \<open>An item processed without an exception\<close>

lemma process_item_ok_all:
  assumes ok: "fst (process_item msg sid item m) = None"
  shows "(T \<noteq> [] \<longrightarrow> tool_calls (snd (process_item msg sid item m)) (KStr T)
            = tool_calls m (KStr T) + (if tool_use_named T item then 1 else 0))
    \<and> (T \<noteq> [] \<longrightarrow> tool_get (snd (process_item msg sid item m)) (KStr T)
            = (if tool_use_named T item
               then \<lparr>input_tokens = input_tokens (tool_get m (KStr T)) + usage_amount msg ''input_tokens'',
                     output_tokens = output_tokens (tool_get m (KStr T)) + usage_amount msg ''output_tokens'',
                     cache_creation_tokens = cache_creation_tokens (tool_get m (KStr T))
                        + usage_amount msg ''cache_creation_input_tokens'',
                     cache_read_tokens = cache_read_tokens (tool_get m (KStr T))
                        + usage_amount msg ''cache_read_input_tokens''\<rparr>
               else tool_get m (KStr T)))
    \<and> agent_get (snd (process_item msg sid item m)) k
            = (if selects_agent k item
               then \<lparr>count = count (agent_get m k) + 1,
                     total_input_tokens = total_input_tokens (agent_get m k) + usage_amount msg ''input_tokens'',
                     total_output_tokens = total_output_tokens (agent_get m k) + usage_amount msg ''output_tokens'',
                     total_cache_creation_tokens = total_cache_creation_tokens (agent_get m k)
                        + usage_amount msg ''cache_creation_input_tokens'',
                     total_cache_read_tokens = total_cache_read_tokens (agent_get m k)
                        + usage_amount msg ''cache_read_input_tokens'',
                     sessions = (if truthy sid then set_option (py_hash_key sid) else {})
                        \<union> sessions (agent_get m k)\<rparr>
               else agent_get m k)
    \<and> (fst ` set (tool_token_usage m) = fst ` set (tool_usage m) \<longrightarrow>
           fst ` set (tool_token_usage (snd (process_item msg sid item m)))
             = fst ` set (tool_usage (snd (process_item msg sid item m))))"
proof (cases rule: process_item_cases [of msg sid item m])
  case inert
  then show ?thesis by simp
next
  case (active kvs n)
  define X where "X = (if n = JStr ''Task''
                   then task_branch (dict_get kvs ''input'' (JObj [])) msg sid else skip)"
  define m1 where "m1 = snd (incr_tool_usage n m)"
  define m2 where "m2 = snd (X m1)"
  define m3 where "m3 = snd (track_tool_tokens n msg m2)"
  have eq: "process_item msg sid item m = then_do (incr_tool_usage n) (then_do X (track_tool_tokens n msg)) m"
    by (simp add: active(5) X_def)
  have oks: "fst (incr_tool_usage n m) = None" "fst (X m1) = None" "fst (track_tool_tokens n msg m2) = None"
    using ok unfolding eq fst_then_do_None m1_def m2_def by simp_all
  have res: "snd (process_item msg sid item m) = m3"
    using oks unfolding eq m1_def m2_def m3_def by (simp add: snd_then_do_ok fst_then_do_None)
  obtain k0 where k0: "py_hash_key n = Some k0"
    using oks(1) by (auto simp add: incr_tool_usage_fst_None)
  have named: "tool_use_named T item \<longleftrightarrow> n = JStr T" for T
    by (rule active_named [OF active(1-4)])
  have key: "k0 = KStr T \<longleftrightarrow> n = JStr T" for T
    using k0 by (cases n) (auto split: if_splits)
  have X_frame: "tool_usage m2 = tool_usage m1" "tool_token_usage m2 = tool_token_usage m1"
    unfolding m2_def X_def
    by (cases rule: task_branch_cases [of "dict_get kvs ''input'' (JObj [])" msg sid m1];
        simp add: track_agent_usage_frame)+
  have calls: "tool_calls m3 (KStr T) = tool_calls m (KStr T) + (if tool_use_named T item then 1 else 0)"
    unfolding m3_def
    by (simp add: tool_calls_cong [OF track_tool_tokens_frame(1)] tool_calls_cong [OF X_frame(1)]
        m1_def incr_tool_usage_calls k0 key named)
  have get2: "tool_get m2 k' = tool_get m k'" for k'
    by (simp add: tool_get_cong [OF X_frame(2)] m1_def tool_get_cong [OF incr_tool_usage_frame(2)])
  from track_tool_tokens_ok [OF oks(3)] k0
  have tok: "tool_get m3 k0 =
     \<lparr>input_tokens = input_tokens (tool_get m2 k0) + usage_amount msg ''input_tokens'',
      output_tokens = output_tokens (tool_get m2 k0) + usage_amount msg ''output_tokens'',
      cache_creation_tokens = cache_creation_tokens (tool_get m2 k0) + usage_amount msg ''cache_creation_input_tokens'',
      cache_read_tokens = cache_read_tokens (tool_get m2 k0) + usage_amount msg ''cache_read_input_tokens''\<rparr>"
    and keys3: "fst ` set (tool_token_usage m3) = insert k0 (fst ` set (tool_token_usage m2))"
    unfolding m3_def by auto
  have other: "tool_get m3 k' = tool_get m2 k'" if "k' \<noteq> k0" for k'
    unfolding m3_def using that k0 by (intro track_tool_tokens_other) auto
  have gets: "tool_get m3 (KStr T)
          = (if tool_use_named T item
             then \<lparr>input_tokens = input_tokens (tool_get m (KStr T)) + usage_amount msg ''input_tokens'',
                   output_tokens = output_tokens (tool_get m (KStr T)) + usage_amount msg ''output_tokens'',
                   cache_creation_tokens = cache_creation_tokens (tool_get m (KStr T))
                      + usage_amount msg ''cache_creation_input_tokens'',
                   cache_read_tokens = cache_read_tokens (tool_get m (KStr T))
                      + usage_amount msg ''cache_read_input_tokens''\<rparr>
             else tool_get m (KStr T))"
  proof (cases "n = JStr T")
    case True
    then have "k0 = KStr T" using key by simp
    then show ?thesis using tok True by (simp add: named get2)
  next
    case False
    then have "KStr T \<noteq> k0" using key by auto
    then show ?thesis using other False by (simp add: named get2)
  qed
  have keys: "fst ` set (tool_token_usage m3) = fst ` set (tool_usage m3)"
    if "fst ` set (tool_token_usage m) = fst ` set (tool_usage m)"
    using that keys3 unfolding m3_def
    by (simp add: track_tool_tokens_frame X_frame m1_def incr_tool_usage_keys incr_tool_usage_frame k0)
  have ag1: "agent_get m1 k' = agent_get m k'" for k'
    by (simp add: m1_def agent_get_cong [OF incr_tool_usage_frame(1)])
  have ag3: "agent_get m3 k' = agent_get m2 k'" for k'
    by (simp add: m3_def agent_get_cong [OF track_tool_tokens_frame(2)])
  have sel: "selects_agent k' item \<longleftrightarrow>
      n = JStr ''Task'' \<and> (\<exists>s. subagent_of (dict_get kvs ''input'' (JObj [])) = Inr s \<and> truthy s
          \<and> py_hash_key s = Some k')" for k'
    using named [of "''Task''"] active(1)
    by (auto simp add: selects_agent_def split: sum.splits)
  have agents: "agent_get m2 k
          = (if selects_agent k item
             then \<lparr>count = count (agent_get m k) + 1,
                   total_input_tokens = total_input_tokens (agent_get m k) + usage_amount msg ''input_tokens'',
                   total_output_tokens = total_output_tokens (agent_get m k) + usage_amount msg ''output_tokens'',
                   total_cache_creation_tokens = total_cache_creation_tokens (agent_get m k)
                      + usage_amount msg ''cache_creation_input_tokens'',
                   total_cache_read_tokens = total_cache_read_tokens (agent_get m k)
                      + usage_amount msg ''cache_read_input_tokens'',
                   sessions = (if truthy sid then set_option (py_hash_key sid) else {})
                      \<union> sessions (agent_get m k)\<rparr>
             else agent_get m k)"
  proof (cases "n = JStr ''Task''")
    case False
    then show ?thesis by (simp add: sel m2_def X_def ag1)
  next
    case True
    show ?thesis
    proof (cases rule: task_branch_cases [of "dict_get kvs ''input'' (JObj [])" msg sid m1])
      case unchanged
      then show ?thesis using True by (auto simp add: sel m2_def X_def ag1)
    next
      case (tracked s)
      have ok2: "fst (track_agent_usage s msg sid m1) = None"
        using oks(2) True tracked(3) by (simp add: X_def)
      have m2: "m2 = snd (track_agent_usage s msg sid m1)"
        using True tracked(3) by (simp add: m2_def X_def)
      from track_agent_usage_ok [OF ok2] obtain ks where ks: "py_hash_key s = Some ks"
        and rec: "agent_get m2 ks =
          \<lparr>count = count (agent_get m1 ks) + 1,
           total_input_tokens = total_input_tokens (agent_get m1 ks) + usage_amount msg ''input_tokens'',
           total_output_tokens = total_output_tokens (agent_get m1 ks) + usage_amount msg ''output_tokens'',
           total_cache_creation_tokens =
             total_cache_creation_tokens (agent_get m1 ks) + usage_amount msg ''cache_creation_input_tokens'',
           total_cache_read_tokens =
             total_cache_read_tokens (agent_get m1 ks) + usage_amount msg ''cache_read_input_tokens'',
           sessions = (if truthy sid then set_option (py_hash_key sid) else {}) \<union> sessions (agent_get m1 ks)\<rparr>"
        unfolding m2 by blast
      have sel': "selects_agent k' item \<longleftrightarrow> k' = ks" for k'
        using True tracked(1,2) ks by (auto simp add: sel)
      show ?thesis
      proof (cases "k = ks")
        case True
        then show ?thesis using rec by (simp add: sel' ag1)
      next
        case False
        then have "agent_get m2 k = agent_get m1 k"
          unfolding m2 using ks by (intro track_agent_usage_other) auto
        then show ?thesis using False by (simp add: sel' ag1)
      qed
    qed
  qed
  show ?thesis
    unfolding res using calls gets agents keys by (simp add: ag3)
qed

subsection \<open>The loop over the content\<close>

lemma process_items_post:
  assumes "Q m" and "\<And>item x. item \<in> set items \<Longrightarrow> Q x \<Longrightarrow> Q (snd (process_item msg sid item x))"
  shows "Q (snd (process_items msg sid items m))"
  using assms
proof (induction items arbitrary: m)
  case Nil
  then show ?case by simp
next
  case (Cons item items)
  have q: "Q (snd (process_item msg sid item m))" using Cons.prems by simp
  show ?case
  proof (cases "process_item msg sid item m")
    case (Pair r m')
    then show ?thesis using q Cons.IH [of m'] Cons.prems(2) by (cases r) simp_all
  qed
qed

lemma process_items_ok_inv:
  assumes "J m" and "fst (process_items msg sid items m) = None"
    and "\<And>item x. J x \<Longrightarrow> fst (process_item msg sid item x) = None \<Longrightarrow> J (snd (process_item msg sid item x))"
  shows "J (snd (process_items msg sid items m))"
  using assms(1,2)
proof (induction items arbitrary: m)
  case Nil
  then show ?case by simp
next
  case (Cons item items)
  show ?case
  proof (cases "process_item msg sid item m")
    case (Pair r m')
    then have r: "r = None" using Cons.prems(2) by (cases r) simp_all
    have "J m'" using assms(3) [OF Cons.prems(1), of item] Pair r by simp
    then show ?thesis using Cons.IH [of m'] Cons.prems(2) Pair r by simp
  qed
qed

lemma process_items_ok:
  assumes "fst (process_items msg sid items m) = None"
  shows "(T \<noteq> [] \<longrightarrow>
       tool_calls (snd (process_items msg sid items m)) (KStr T)
         = tool_calls m (KStr T) + int (length (filter (tool_use_named T) items))
     \<and> input_tokens (tool_get (snd (process_items msg sid items m)) (KStr T))
         = input_tokens (tool_get m (KStr T))
           + int (length (filter (tool_use_named T) items)) * usage_amount msg ''input_tokens''
     \<and> output_tokens (tool_get (snd (process_items msg sid items m)) (KStr T))
         = output_tokens (tool_get m (KStr T))
           + int (length (filter (tool_use_named T) items)) * usage_amount msg ''output_tokens''
     \<and> cache_creation_tokens (tool_get (snd (process_items msg sid items m)) (KStr T))
         = cache_creation_tokens (tool_get m (KStr T))
           + int (length (filter (tool_use_named T) items)) * usage_amount msg ''cache_creation_input_tokens''
     \<and> cache_read_tokens (tool_get (snd (process_items msg sid items m)) (KStr T))
         = cache_read_tokens (tool_get m (KStr T))
           + int (length (filter (tool_use_named T) items)) * usage_amount msg ''cache_read_input_tokens'')
   \<and> count (agent_get (snd (process_items msg sid items m)) k)
         = count (agent_get m k) + int (length (filter (selects_agent k) items))
   \<and> total_input_tokens (agent_get (snd (process_items msg sid items m)) k)
         = total_input_tokens (agent_get m k)
           + int (length (filter (selects_agent k) items)) * usage_amount msg ''input_tokens''
   \<and> total_output_tokens (agent_get (snd (process_items msg sid items m)) k)
         = total_output_tokens (agent_get m k)
           + int (length (filter (selects_agent k) items)) * usage_amount msg ''output_tokens''
   \<and> total_cache_creation_tokens (agent_get (snd (process_items msg sid items m)) k)
         = total_cache_creation_tokens (agent_get m k)
           + int (length (filter (selects_agent k) items)) * usage_amount msg ''cache_creation_input_tokens''
   \<and> total_cache_read_tokens (agent_get (snd (process_items msg sid items m)) k)
         = total_cache_read_tokens (agent_get m k)
           + int (length (filter (selects_agent k) items)) * usage_amount msg ''cache_read_input_tokens''"
  using assms
proof (induction items arbitrary: m)
  case Nil
  then show ?case by simp
next
  case (Cons item items)
  show ?case
  proof (cases "process_item msg sid item m")
    case (Pair r m')
    then have r: "r = None" using Cons.prems by (cases r) simp_all
    have step: "process_items msg sid (item # items) m = process_items msg sid items m'"
      using Pair r by simp
    have ok1: "fst (process_item msg sid item m) = None" using Pair r by simp
    have m': "m' = snd (process_item msg sid item m)" using Pair by simp
    note one = process_item_ok_all [OF ok1, of T k, folded m']
    note rest = Cons.IH [of m', OF Cons.prems [unfolded step]]
    show ?thesis
      unfolding step using one rest by (simp add: algebra_simps)
  qed
qed

subsection \<open>An entry\<close>

lemma track_entry_post:
  assumes "Q m" and "\<And>s x. Q x \<Longrightarrow> Q (x\<lparr>sessions_analyzed := s\<rparr>)"
    and "\<And>item x. Q x \<Longrightarrow>
          Q (snd (process_item (dict_get kvs ''message'' (JObj [])) (dict_get kvs ''sessionId'' JNull) item x))"
  shows "Q (snd (track_entry kvs m))"
  unfolding track_entry_def Let_def
proof (rule then_do_post [where Q = Q])
  show "Q (snd ((if truthy (dict_get kvs ''sessionId'' JNull)
      then \<lambda>m. case py_hash_key (dict_get kvs ''sessionId'' JNull) of
                 None \<Rightarrow> (Some TypeError, m)
               | Some s \<Rightarrow> (None, m\<lparr>sessions_analyzed := insert s (sessions_analyzed m)\<rparr>)
      else skip) m))"
    using assms(1,2) by (simp split: option.splits)
next
  fix x assume q: "Q x"
  show "Q (snd (case py_get (dict_get kvs ''message'' (JObj [])) ''content'' (JArr []) of
          Inl e \<Rightarrow> (Some e, x)
        | Inr content \<Rightarrow>
            (case content of
               JArr items \<Rightarrow>
                 process_items (dict_get kvs ''message'' (JObj [])) (dict_get kvs ''sessionId'' JNull) items x
             | _ \<Rightarrow> (None, x))))"
  proof (cases "py_get (dict_get kvs ''message'' (JObj [])) ''content'' (JArr [])")
    case (Inl e)
    then show ?thesis using q by simp
  next
    case (Inr content)
    show ?thesis
    proof (cases content)
      case (JArr items)
      then show ?thesis using Inr q assms(3) by (simp add: process_items_post)
    qed (use Inr q in simp_all)
  qed
qed

lemma track_entry_ok:
  assumes "fst (track_entry kvs m) = None"
  obtains s where
    "fst (process_items (dict_get kvs ''message'' (JObj [])) (dict_get kvs ''sessionId'' JNull)
            (content_items kvs) (m\<lparr>sessions_analyzed := s\<rparr>)) = None"
    "snd (track_entry kvs m) =
       snd (process_items (dict_get kvs ''message'' (JObj [])) (dict_get kvs ''sessionId'' JNull)
            (content_items kvs) (m\<lparr>sessions_analyzed := s\<rparr>))"
proof -
  define S :: stmt where "S = (if truthy (dict_get kvs ''sessionId'' JNull)
      then \<lambda>m. case py_hash_key (dict_get kvs ''sessionId'' JNull) of
                 None \<Rightarrow> (Some TypeError, m)
               | Some s \<Rightarrow> (None, m\<lparr>sessions_analyzed := insert s (sessions_analyzed m)\<rparr>)
      else skip)"
  define C :: stmt where "C = (\<lambda>x. case py_get (dict_get kvs ''message'' (JObj [])) ''content'' (JArr []) of
          Inl e \<Rightarrow> (Some e, x)
        | Inr content \<Rightarrow>
            (case content of
               JArr items \<Rightarrow>
                 process_items (dict_get kvs ''message'' (JObj [])) (dict_get kvs ''sessionId'' JNull) items x
             | _ \<Rightarrow> (None, x)))"
  have eq: "track_entry kvs m = then_do S C m"
    by (simp add: track_entry_def Let_def S_def C_def)
  have oks: "fst (S m) = None" "fst (C (snd (S m))) = None"
    using assms unfolding eq fst_then_do_None by simp_all
  have res: "snd (track_entry kvs m) = snd (C (snd (S m)))"
    unfolding eq using oks(1) by (rule snd_then_do_ok)
  obtain s where s: "snd (S m) = m\<lparr>sessions_analyzed := s\<rparr>"
  proof (cases "truthy (dict_get kvs ''sessionId'' JNull)")
    case True
    then obtain k where "py_hash_key (dict_get kvs ''sessionId'' JNull) = Some k"
      using oks(1) by (cases "py_hash_key (dict_get kvs ''sessionId'' JNull)") (simp_all add: S_def)
    then show ?thesis using True that [of "insert k (sessions_analyzed m)"] by (simp add: S_def)
  next
    case False
    then show ?thesis using that [of "sessions_analyzed m"] by (simp add: S_def)
  qed
  have C: "C x = process_items (dict_get kvs ''message'' (JObj [])) (dict_get kvs ''sessionId'' JNull)
            (content_items kvs) x" if "fst (C x) = None" for x
    using that unfolding C_def content_items_def
    by (auto split: sum.splits json.splits)
  show ?thesis
    using that [of s] oks(2) res C [OF oks(2)] by (simp add: s)
qed

lemma process_entry_retained:
  "time_filter fi (cutoff_date m) (dict_get kvs ''timestamp'' JNull) = Inr False \<Longrightarrow>
     process_entry fi (JObj kvs) m = track_entry kvs m"
  by (simp add: process_entry_def)

lemma process_entry_cases:
  obtains (unchanged) "snd (process_entry fi entry m) = m"
  | (tracked) kvs where "entry = JObj kvs" "process_entry fi entry m = track_entry kvs m"
proof (cases entry)
  case (JObj kvs)
  show ?thesis
  proof (cases "time_filter fi (cutoff_date m) (dict_get kvs ''timestamp'' JNull)")
    case (Inl e)
    then show ?thesis using JObj by (intro unchanged) (simp add: process_entry_def)
  next
    case (Inr b)
    then show ?thesis using JObj
      by (cases b) (auto intro: unchanged tracked simp add: process_entry_def)
  qed
qed (auto intro!: unchanged simp add: process_entry_def)

lemma process_entry_post:
  assumes "Q m" and "\<And>s x. Q x \<Longrightarrow> Q (x\<lparr>sessions_analyzed := s\<rparr>)"
    and "\<And>kvs item x. entry = JObj kvs \<Longrightarrow> Q x \<Longrightarrow>
          Q (snd (process_item (dict_get kvs ''message'' (JObj [])) (dict_get kvs ''sessionId'' JNull) item x))"
  shows "Q (snd (process_entry fi entry m))"
proof (cases rule: process_entry_cases [of fi entry m])
  case unchanged
  then show ?thesis using assms(1) by simp
next
  case (tracked kvs)
  show ?thesis
    unfolding tracked(2)
    by (rule track_entry_post [where Q = Q]) (use assms tracked(1) in auto)
qed

subsection \<open>Files\<close>

lemma parse_session_file_post:
  assumes "Q m" and "\<And>e x. JsonLine e \<in> set ls \<Longrightarrow> Q x \<Longrightarrow> Q (snd (process_entry fi e x))"
  shows "Q (snd (parse_session_file fi ls m))"
  using assms
proof (induction ls arbitrary: m)
  case Nil
  then show ?case by simp
next
  case (Cons l ls)
  have rest: "Q (snd (parse_session_file fi ls x))" if "Q x" for x
    by (rule Cons.IH [OF that]) (simp add: Cons.prems(2))
  show ?case
  proof (cases l)
    case BlankLine
    then show ?thesis using rest [OF Cons.prems(1)] by simp
  next
    case BadJson
    then show ?thesis using rest [OF Cons.prems(1)] by simp
  next
    case (JsonLine entry)
    have q: "Q (snd (process_entry fi entry m))"
      by (rule Cons.prems(2) [OF _ Cons.prems(1)]) (simp add: JsonLine)
    show ?thesis
    proof (cases "process_entry fi entry m")
      case (Pair r m')
      show ?thesis
      proof (cases r)
        case None
        then show ?thesis using rest [of m'] q Pair JsonLine by simp
      next
        case (Some e)
        then show ?thesis using q Pair JsonLine by simp
      qed
    qed
  qed
qed

lemma parse_session_file_ok_inv:
  assumes "J m" and "fst (parse_session_file fi ls m) = None"
    and "\<And>e x. J x \<Longrightarrow> fst (process_entry fi e x) = None \<Longrightarrow> J (snd (process_entry fi e x))"
  shows "J (snd (parse_session_file fi ls m))"
  using assms(1,2)
proof (induction ls arbitrary: m)
  case Nil
  then show ?case by simp
next
  case (Cons l ls)
  show ?case
  proof (cases l)
    case BlankLine
    then show ?thesis using Cons.IH [of m] Cons.prems by simp
  next
    case BadJson
    then show ?thesis using Cons.IH [of m] Cons.prems by simp
  next
    case (JsonLine entry)
    show ?thesis
    proof (cases "process_entry fi entry m")
      case (Pair r m')
      have r: "r = None" using Cons.prems(2) JsonLine Pair by (cases r) simp_all
      have "J m'" using assms(3) [OF Cons.prems(1), of entry] Pair r by simp
      moreover have "fst (parse_session_file fi ls m') = None"
        using Cons.prems(2) JsonLine Pair r by simp
      ultimately have "J (snd (parse_session_file fi ls m'))" by (rule Cons.IH)
      then show ?thesis using JsonLine Pair r by simp
    qed
  qed
qed

lemma parse_files_Cons:
  "snd (parse_files fi (f # fs) m) = snd (parse_files fi fs (snd (parse_session_file fi f m)))"
  "fst (parse_files fi (f # fs) m) =
     (case fst (parse_session_file fi f m) of None \<Rightarrow> [] | Some e \<Rightarrow> [e])
     @ fst (parse_files fi fs (snd (parse_session_file fi f m)))"
  by (cases "parse_session_file fi f m";
      cases "parse_files fi fs (snd (parse_session_file fi f m))"; simp)+

lemma parse_files_post:
  assumes "Q m" and "\<And>f e x. f \<in> set fs \<Longrightarrow> JsonLine e \<in> set f \<Longrightarrow> Q x \<Longrightarrow> Q (snd (process_entry fi e x))"
  shows "Q (snd (parse_files fi fs m))"
  using assms
proof (induction fs arbitrary: m)
  case Nil
  then show ?case by simp
next
  case (Cons f fs)
  have "Q (snd (parse_session_file fi f m))"
    by (rule parse_session_file_post [where Q = Q, OF Cons.prems(1)])
       (rule Cons.prems(2) [of f], simp_all)
  then have "Q (snd (parse_files fi fs (snd (parse_session_file fi f m))))"
    by (rule Cons.IH) (rule Cons.prems(2), simp_all)
  then show ?case by (simp only: parse_files_Cons)
qed

lemma parse_files_ok_inv:
  assumes "J m" and "fst (parse_files fi fs m) = []"
    and "\<And>e x. J x \<Longrightarrow> fst (process_entry fi e x) = None \<Longrightarrow> J (snd (process_entry fi e x))"
  shows "J (snd (parse_files fi fs m))"
  using assms(1,2)
proof (induction fs arbitrary: m)
  case Nil
  then show ?case by simp
next
  case (Cons f fs)
  have ok1: "fst (parse_session_file fi f m) = None"
    using Cons.prems(2) unfolding parse_files_Cons by (cases "fst (parse_session_file fi f m)") simp_all
  have ok2: "fst (parse_files fi fs (snd (parse_session_file fi f m))) = []"
    using Cons.prems(2) unfolding parse_files_Cons by simp
  have "J (snd (parse_session_file fi f m))"
    by (rule parse_session_file_ok_inv [where J = J, OF Cons.prems(1) ok1 assms(3)])
  then have "J (snd (parse_files fi fs (snd (parse_session_file fi f m))))"
    using ok2 by (rule Cons.IH)
  then show ?case by (simp only: parse_files_Cons)
qed

subsection \<open>Entries and the time filter\<close>

lemma dict_get_delete: "k' \<noteq> k \<Longrightarrow> dict_get (AList.delete k kvs) k' d = dict_get kvs k' d"
  by (simp add: dict_get_def)




lemma content_items_delete: "content_items (AList.delete ''timestamp'' kvs) = content_items kvs"
  by (simp add: content_items_def dict_get_delete)

subsection \<open>Bounds on a tool's call count\<close>

lemma process_items_calls_bounds:
  assumes "T \<noteq> []"
  shows "tool_calls m (KStr T) \<le> tool_calls (snd (process_items msg sid items m)) (KStr T)
     \<and> tool_calls (snd (process_items msg sid items m)) (KStr T)
        \<le> tool_calls m (KStr T) + int (length (filter (tool_use_named T) items))"
proof (induction items arbitrary: m)
  case Nil
  then show ?case by simp
next
  case (Cons item items)
  note one = process_item_calls_bounds [OF assms, of m msg sid item]
  show ?case
  proof (cases "process_item msg sid item m")
    case (Pair r m')
    show ?thesis
    proof (cases r)
      case None
      then show ?thesis using one Cons.IH [of m'] Pair by (auto split: if_splits)
    next
      case (Some e)
      then show ?thesis using one Pair by (auto split: if_splits)
    qed
  qed
qed

lemma track_entry_shape:
  obtains (stopped) s where "snd (track_entry kvs m) = m\<lparr>sessions_analyzed := s\<rparr>"
  | (looped) s where "snd (track_entry kvs m) =
       snd (process_items (dict_get kvs ''message'' (JObj [])) (dict_get kvs ''sessionId'' JNull)
            (content_items kvs) (m\<lparr>sessions_analyzed := s\<rparr>))"
proof -
  define S :: stmt where "S = (if truthy (dict_get kvs ''sessionId'' JNull)
      then \<lambda>m. case py_hash_key (dict_get kvs ''sessionId'' JNull) of
                 None \<Rightarrow> (Some TypeError, m)
               | Some s \<Rightarrow> (None, m\<lparr>sessions_analyzed := insert s (sessions_analyzed m)\<rparr>)
      else skip)"
  define C :: stmt where "C = (\<lambda>x. case py_get (dict_get kvs ''message'' (JObj [])) ''content'' (JArr []) of
          Inl e \<Rightarrow> (Some e, x)
        | Inr content \<Rightarrow>
            (case content of
               JArr items \<Rightarrow>
                 process_items (dict_get kvs ''message'' (JObj [])) (dict_get kvs ''sessionId'' JNull) items x
             | _ \<Rightarrow> (None, x)))"
  have eq: "track_entry kvs m = then_do S C m"
    by (simp add: track_entry_def Let_def S_def C_def)
  obtain s where s: "snd (S m) = m\<lparr>sessions_analyzed := s\<rparr>"
  proof (cases "truthy (dict_get kvs ''sessionId'' JNull)")
    case True
    show ?thesis
    proof (cases "py_hash_key (dict_get kvs ''sessionId'' JNull)")
      case None
      then show ?thesis using True that [of "sessions_analyzed m"] by (simp add: S_def)
    next
      case (Some k)
      then show ?thesis using True that [of "insert k (sessions_analyzed m)"] by (simp add: S_def)
    qed
  next
    case False
    then show ?thesis using that [of "sessions_analyzed m"] by (simp add: S_def)
  qed
  have C: "snd (C x) = x \<or> snd (C x) =
      snd (process_items (dict_get kvs ''message'' (JObj [])) (dict_get kvs ''sessionId'' JNull)
            (content_items kvs) x)" for x
    unfolding C_def content_items_def by (auto split: sum.splits json.splits)
  show ?thesis
  proof (cases "fst (S m)")
    case None
    then have "snd (track_entry kvs m) = snd (C (snd (S m)))"
      unfolding eq by (rule snd_then_do_ok)
    then show ?thesis using C [of "snd (S m)"] stopped [of s] looped [of s] by (auto simp add: s)
  next
    case (Some e)
    then have "snd (track_entry kvs m) = snd (S m)"
      unfolding eq by (cases "S m") (simp add: then_do_def)
    then show ?thesis using stopped [of s] by (simp add: s)
  qed
qed

lemma tool_calls_session [simp]: "tool_calls (m\<lparr>sessions_analyzed := s\<rparr>) k = tool_calls m k"
  by (simp add: tool_calls_def)

lemma tool_get_session [simp]: "tool_get (m\<lparr>sessions_analyzed := s\<rparr>) k = tool_get m k"
  by (simp add: tool_get_def)

lemma agent_get_session [simp]: "agent_get (m\<lparr>sessions_analyzed := s\<rparr>) k = agent_get m k"
  by (simp add: agent_get_def)

lemma total_agent_invocations_session [simp]:
  "total_agent_invocations (m\<lparr>sessions_analyzed := s\<rparr>) = total_agent_invocations m"
  by (simp add: total_agent_invocations_def)

lemma track_entry_calls_bounds:
  assumes "T \<noteq> []"
  shows "tool_calls m (KStr T) \<le> tool_calls (snd (track_entry kvs m)) (KStr T)
     \<and> tool_calls (snd (track_entry kvs m)) (KStr T)
        \<le> tool_calls m (KStr T) + int (length (filter (tool_use_named T) (content_items kvs)))"
proof (cases rule: track_entry_shape [of kvs m])
  case (stopped s)
  then show ?thesis by simp
next
  case (looped s)
  then show ?thesis
    using process_items_calls_bounds [OF assms, of "m\<lparr>sessions_analyzed := s\<rparr>"
        "dict_get kvs ''message'' (JObj [])" "dict_get kvs ''sessionId'' JNull" "content_items kvs"]
    by simp
qed

subsection \<open>An entry processed without an exception\<close>

lemma track_entry_exact:
  assumes "fst (track_entry kvs m) = None"
  shows "(T \<noteq> [] \<longrightarrow>
       tool_calls (snd (track_entry kvs m)) (KStr T)
         = tool_calls m (KStr T) + int (length (filter (tool_use_named T) (content_items kvs)))
     \<and> input_tokens (tool_get (snd (track_entry kvs m)) (KStr T))
         = input_tokens (tool_get m (KStr T))
           + int (length (filter (tool_use_named T) (content_items kvs)))
             * usage_amount (dict_get kvs ''message'' (JObj [])) ''input_tokens''
     \<and> output_tokens (tool_get (snd (track_entry kvs m)) (KStr T))
         = output_tokens (tool_get m (KStr T))
           + int (length (filter (tool_use_named T) (content_items kvs)))
             * usage_amount (dict_get kvs ''message'' (JObj [])) ''output_tokens''
     \<and> cache_creation_tokens (tool_get (snd (track_entry kvs m)) (KStr T))
         = cache_creation_tokens (tool_get m (KStr T))
           + int (length (filter (tool_use_named T) (content_items kvs)))
             * usage_amount (dict_get kvs ''message'' (JObj [])) ''cache_creation_input_tokens''
     \<and> cache_read_tokens (tool_get (snd (track_entry kvs m)) (KStr T))
         = cache_read_tokens (tool_get m (KStr T))
           + int (length (filter (tool_use_named T) (content_items kvs)))
             * usage_amount (dict_get kvs ''message'' (JObj [])) ''cache_read_input_tokens'')
   \<and> count (agent_get (snd (track_entry kvs m)) k)
         = count (agent_get m k) + int (length (filter (selects_agent k) (content_items kvs)))
   \<and> total_input_tokens (agent_get (snd (track_entry kvs m)) k)
         = total_input_tokens (agent_get m k)
           + int (length (filter (selects_agent k) (content_items kvs)))
             * usage_amount (dict_get kvs ''message'' (JObj [])) ''input_tokens''
   \<and> total_output_tokens (agent_get (snd (track_entry kvs m)) k)
         = total_output_tokens (agent_get m k)
           + int (length (filter (selects_agent k) (content_items kvs)))
             * usage_amount (dict_get kvs ''message'' (JObj [])) ''output_tokens''
   \<and> total_cache_creation_tokens (agent_get (snd (track_entry kvs m)) k)
         = total_cache_creation_tokens (agent_get m k)
           + int (length (filter (selects_agent k) (content_items kvs)))
             * usage_amount (dict_get kvs ''message'' (JObj [])) ''cache_creation_input_tokens''
   \<and> total_cache_read_tokens (agent_get (snd (track_entry kvs m)) k)
         = total_cache_read_tokens (agent_get m k)
           + int (length (filter (selects_agent k) (content_items kvs)))
             * usage_amount (dict_get kvs ''message'' (JObj [])) ''cache_read_input_tokens''"
proof -
  from track_entry_ok [OF assms] obtain s where
    ok: "fst (process_items (dict_get kvs ''message'' (JObj [])) (dict_get kvs ''sessionId'' JNull)
            (content_items kvs) (m\<lparr>sessions_analyzed := s\<rparr>)) = None"
    and res: "snd (track_entry kvs m) =
       snd (process_items (dict_get kvs ''message'' (JObj [])) (dict_get kvs ''sessionId'' JNull)
            (content_items kvs) (m\<lparr>sessions_analyzed := s\<rparr>))"
    by blast
  show ?thesis
    unfolding res using process_items_ok [OF ok, of T k] by simp
qed

section \<open>The derived metrics\<close>

text \<open>Sorting a list does not change a sum over it.\<close>

lemma sum_list_insort_key:
  "sum_list (map f (insort_key g x xs)) = f x + sum_list (map f xs)" for f :: "'a \<Rightarrow> int"
  by (induction xs) auto

lemma sum_list_sort_key:
  "sum_list (map f (sort_key g xs)) = sum_list (map f xs)" for f :: "'a \<Rightarrow> int"
  by (induction xs) (auto simp: sum_list_insort_key)

lemma total_cache_read_all_eq:
  "total_cache_read_all m =
     sum_list (map (\<lambda>p. cache_read_tokens (snd p)) (tool_token_usage m))
     + sum_list (map (\<lambda>p. total_cache_read_tokens (snd p)) (agent_usage m))"
proof -
  have a: "map total_cache_read (map agent_consumer xs) = map (\<lambda>p. total_cache_read_tokens (snd p)) xs" for xs
    by (induction xs) (auto simp: agent_consumer_def Let_def split: prod.splits)
  have t: "map total_cache_read (map (tool_consumer m) xs) = map (\<lambda>p. cache_read_tokens (snd p)) xs" for xs
    by (induction xs) (auto simp: tool_consumer_def Let_def split: prod.splits)
  show ?thesis
    unfolding total_cache_read_all_def token_consumers_def sum_list_sort_key
    using a t by (simp del: map_map)
qed


text \<open>
  C5. For an agent record and for a tool record, the billable figure of the report is
  input + 3 * output + cache creation, the cache-read figure is the record's cache-read
  total, and the cache efficiency is cache-read / (billable + cache-read) * 100 when
  billable + cache-read is positive and 0 otherwise. An entity with billable = 100 and
  cache-read = 900 has cache efficiency 90. The quotient is taken over the reals.
\<close>

theorem billable_and_cache_efficiency:
  "total_billable (agent_consumer (a, d))
     = total_input_tokens d + 3 * total_output_tokens d + total_cache_creation_tokens d
   \<and> total_cache_read (agent_consumer (a, d)) = total_cache_read_tokens d
   \<and> cache_efficiency (agent_consumer (a, d))
     = (if total_billable (agent_consumer (a, d)) + total_cache_read (agent_consumer (a, d)) > 0
        then real_of_int (total_cache_read (agent_consumer (a, d)))
             / real_of_int (total_billable (agent_consumer (a, d)) + total_cache_read (agent_consumer (a, d))) * 100
        else 0)
   \<and> total_billable (tool_consumer m (t, r))
     = input_tokens r + 3 * output_tokens r + cache_creation_tokens r
   \<and> total_cache_read (tool_consumer m (t, r)) = cache_read_tokens r
   \<and> cache_efficiency (tool_consumer m (t, r))
     = (if total_billable (tool_consumer m (t, r)) + total_cache_read (tool_consumer m (t, r)) > 0
        then real_of_int (total_cache_read (tool_consumer m (t, r)))
             / real_of_int (total_billable (tool_consumer m (t, r)) + total_cache_read (tool_consumer m (t, r))) * 100
        else 0)
   \<and> (total_billable (agent_consumer (a, d)) = 100 \<and> total_cache_read (agent_consumer (a, d)) = 900
        \<longrightarrow> cache_efficiency (agent_consumer (a, d)) = 90)
   \<and> (total_billable (tool_consumer m (t, r)) = 100 \<and> total_cache_read (tool_consumer m (t, r)) = 900
        \<longrightarrow> cache_efficiency (tool_consumer m (t, r)) = 90)"
  by (simp add: agent_consumer_def tool_consumer_def Let_def)

theorem billable_and_cache_efficiency_witness:
  "cache_efficiency (agent_consumer (KStr ''reviewer'',
      \<lparr>count = 2, total_input_tokens = 40, total_output_tokens = 10,
       total_cache_creation_tokens = 30, total_cache_read_tokens = 900, sessions = {}\<rparr>)) = 90
   \<and> cache_efficiency (tool_consumer (init 0 7) (KStr ''Read'',
      \<lparr>input_tokens = 100, output_tokens = 0, cache_creation_tokens = 0, cache_read_tokens = 900\<rparr>)) = 90"
  using billable_and_cache_efficiency [of "KStr ''reviewer''"
      "\<lparr>count = 2, total_input_tokens = 40, total_output_tokens = 10,
       total_cache_creation_tokens = 30, total_cache_read_tokens = 900, sessions = {}\<rparr>"
      "init 0 7" "KStr ''Read''"
      "\<lparr>input_tokens = 100, output_tokens = 0, cache_creation_tokens = 0, cache_read_tokens = 900\<rparr>"]
  by (simp add: agent_consumer_def tool_consumer_def)

text \<open>
  C6. The estimated cost is total input * 3 / 1,000,000 + total output * 15 / 1,000,000
  + total cache creation * 3 / 1,000,000 + total cache read * 0.30 / 1,000,000, each
  total being the sum of the counter over the tool records plus its sum over the agent
  records. With one tool record of input 1,000,000 and every other counter 0, and no
  agent record, the cost is 3. The arithmetic is over the reals.
\<close>

theorem estimated_cost_formula:
  "estimated_cost m =
     real_of_int (sum_list (map (\<lambda>p. input_tokens (snd p)) (tool_token_usage m))
                  + sum_list (map (\<lambda>p. total_input_tokens (snd p)) (agent_usage m))) * 3 / 1000000
   + real_of_int (sum_list (map (\<lambda>p. output_tokens (snd p)) (tool_token_usage m))
                  + sum_list (map (\<lambda>p. total_output_tokens (snd p)) (agent_usage m))) * 15 / 1000000
   + real_of_int (sum_list (map (\<lambda>p. cache_creation_tokens (snd p)) (tool_token_usage m))
                  + sum_list (map (\<lambda>p. total_cache_creation_tokens (snd p)) (agent_usage m))) * 3 / 1000000
   + real_of_int (sum_list (map (\<lambda>p. cache_read_tokens (snd p)) (tool_token_usage m))
                  + sum_list (map (\<lambda>p. total_cache_read_tokens (snd p)) (agent_usage m))) * (3 / 10) / 1000000
   \<and> (tool_token_usage m =
         [(t, \<lparr>input_tokens = 1000000, output_tokens = 0, cache_creation_tokens = 0, cache_read_tokens = 0\<rparr>)]
        \<and> agent_usage m = [] \<longrightarrow> estimated_cost m = 3)"
  by (simp add: estimated_cost_def total_input_def total_output_def total_cache_create_def
      total_cache_read_all_eq)

theorem estimated_cost_formula_witness:
  "estimated_cost ((init 0 7)\<lparr>tool_token_usage :=
      [(KStr ''Read'', \<lparr>input_tokens = 1000000, output_tokens = 0, cache_creation_tokens = 0, cache_read_tokens = 0\<rparr>)]\<rparr>) = 3"
  using estimated_cost_formula [of "(init 0 7)\<lparr>tool_token_usage :=
      [(KStr ''Read'', \<lparr>input_tokens = 1000000, output_tokens = 0, cache_creation_tokens = 0, cache_read_tokens = 0\<rparr>)]\<rparr>" "KStr ''Read''"]
  by (simp add: init_def)


section \<open>The time window\<close>

text \<open>The definitions unfolded to run the model on a concrete input.\<close>

lemmas run_defs =
  process_entry_def time_filter_def track_entry_def process_item_def task_branch_def subagent_of_def
  track_agent_usage_def track_tool_tokens_def incr_tool_usage_def tool_add_def agent_add_def
  agent_incr_def agent_add_session_def then_do_def skip_def usage_operand_def py_get_def dict_get_def
  tool_calls_def tool_get_def agent_get_def init_def tool_default_def agent_default_def replace_Z_def
  example_fromisoformat_def content_items_def tool_use_named_def selects_agent_def usage_amount_def
  Let_def








section \<open>Counting tool calls, tokens and agent invocations\<close>

text \<open>
  C1, as amended. For an entry the time filter retains and a non-empty tool name \<open>T\<close>:
  when processing the entry raises no exception, tool \<open>T\<close>'s call count grows by exactly
  the number of items of \<^verbatim>\<open>message.content\<close> (when that field is a list) that are
  objects with type \<^verbatim>\<open>"tool_use"\<close> and name \<open>T\<close>; whatever happens, the count never
  shrinks and grows by at most that number. A block whose name is absent or the empty
  string leaves the whole state unchanged.
\<close>

theorem tool_call_counting:
  assumes "time_filter fi (cutoff_date m) (dict_get kvs ''timestamp'' JNull) = Inr False"
    and "T \<noteq> []"
  shows "(fst (process_entry fi (JObj kvs) m) = None \<longrightarrow>
            tool_calls (snd (process_entry fi (JObj kvs) m)) (KStr T)
              = tool_calls m (KStr T) + int (length (filter (tool_use_named T) (content_items kvs))))
    \<and> tool_calls m (KStr T) \<le> tool_calls (snd (process_entry fi (JObj kvs) m)) (KStr T)
    \<and> tool_calls (snd (process_entry fi (JObj kvs) m)) (KStr T)
         \<le> tool_calls m (KStr T) + int (length (filter (tool_use_named T) (content_items kvs)))
    \<and> (map_of item_kvs ''name'' = None \<or> map_of item_kvs ''name'' = Some (JStr [])
         \<longrightarrow> process_item message session_id (JObj item_kvs) x = (None, x))"
proof -
  have eq: "process_entry fi (JObj kvs) m = track_entry kvs m"
    by (rule process_entry_retained [OF assms(1)])
  have "process_item message session_id (JObj item_kvs) x = (None, x)"
    if "map_of item_kvs ''name'' = None \<or> map_of item_kvs ''name'' = Some (JStr [])"
    using that by (auto simp add: process_item_def dict_get_def Let_def)
  then show ?thesis
    unfolding eq
    using track_entry_exact [of kvs m T] track_entry_calls_bounds [OF assms(2), of m kvs] assms(2)
    by blast
qed

theorem tool_call_counting_witness:
  "tool_calls (snd (process_entry example_fromisoformat
      (JObj [(''message'', JObj [(''content'', JArr
          [JObj [(''type'', JStr ''tool_use''), (''name'', JStr ''Read'')],
           JObj [(''type'', JStr ''text''), (''text'', JStr ''hello'')],
           JObj [(''type'', JStr ''tool_use''), (''name'', JStr ''Read'')],
           JObj [(''type'', JStr ''tool_use''), (''name'', JStr [])]])])])
      (init 0 7))) (KStr ''Read'') = 2
   \<and> process_item (JObj []) JNull (JObj [(''type'', JStr ''tool_use''), (''name'', JStr [])]) (init 0 7)
       = (None, init 0 7)"
proof -
  let ?kvs = "[(''message'', JObj [(''content'', JArr
          [JObj [(''type'', JStr ''tool_use''), (''name'', JStr ''Read'')],
           JObj [(''type'', JStr ''text''), (''text'', JStr ''hello'')],
           JObj [(''type'', JStr ''tool_use''), (''name'', JStr ''Read'')],
           JObj [(''type'', JStr ''tool_use''), (''name'', JStr [])]])])]"
  let ?item = "[(''type'', JStr ''tool_use''), (''name'', JStr [])]"
  have h1: "time_filter example_fromisoformat (cutoff_date (init 0 7)) (dict_get ?kvs ''timestamp'' JNull)
      = Inr False"
    by (simp add: run_defs)
  have h2: "''Read'' \<noteq> []" by simp
  have ok: "fst (process_entry example_fromisoformat (JObj ?kvs) (init 0 7)) = None"
    by (simp add: run_defs)
  have name: "map_of ?item ''name'' = Some (JStr [])" by simp
  have v: "tool_calls (init 0 7) (KStr ''Read'') = 0"
    "length (filter (tool_use_named ''Read'') (content_items ?kvs)) = 2"
    by (simp_all add: run_defs)
  note t = tool_call_counting [OF h1 h2, of ?item "JObj []" JNull "init 0 7"]
  show ?thesis using t ok name by (simp only: v) simp
qed

theorem tool_call_counting_counterexample:
  "time_filter example_fromisoformat (cutoff_date (init 0 7))
      (dict_get [(''message'', JObj [(''content'', JArr
          [JObj [(''type'', JStr ''tool_use''), (''name'', JStr ''Read'')],
           JObj [(''type'', JStr ''tool_use''), (''name'', JStr ''Read'')]]),
          (''usage'', JNull)])] ''timestamp'' JNull) = Inr False
   \<and> length (filter (tool_use_named ''Read'') (content_items
        [(''message'', JObj [(''content'', JArr
          [JObj [(''type'', JStr ''tool_use''), (''name'', JStr ''Read'')],
           JObj [(''type'', JStr ''tool_use''), (''name'', JStr ''Read'')]]),
          (''usage'', JNull)])])) = 2
   \<and> process_entry example_fromisoformat
      (JObj [(''message'', JObj [(''content'', JArr
          [JObj [(''type'', JStr ''tool_use''), (''name'', JStr ''Read'')],
           JObj [(''type'', JStr ''tool_use''), (''name'', JStr ''Read'')]]),
          (''usage'', JNull)])]) (init 0 7)
      = (Some AttributeError,
         (init 0 7)\<lparr>tool_usage := [(KStr ''Read'', 1)],
                     tool_token_usage := [(KStr ''Read'', tool_default)]\<rparr>)
   \<and> tool_calls (init 0 7) (KStr ''Read'') = 0
   \<and> tool_calls ((init 0 7)\<lparr>tool_usage := [(KStr ''Read'', 1)],
                     tool_token_usage := [(KStr ''Read'', tool_default)]\<rparr>) (KStr ''Read'') = 1"
  by (simp add: run_defs)

text \<open>
  C4, as amended. For an entry the time filter retains and whose processing raises no
  exception, each of the four token totals of tool \<open>T\<close> grows by the entry's usage value
  once per \<^verbatim>\<open>tool_use\<close> block named \<open>T\<close>: the usage is not divided among the blocks.
  With \<^verbatim>\<open>input_tokens\<close> = 100 and exactly two blocks named \<^verbatim>\<open>Read\<close>, the input
  total of \<^verbatim>\<open>Read\<close> grows by 200.
\<close>

theorem tokens_counted_per_block:
  assumes "time_filter fi (cutoff_date m) (dict_get kvs ''timestamp'' JNull) = Inr False"
    and "fst (process_entry fi (JObj kvs) m) = None"
    and "T \<noteq> []"
  shows "input_tokens (tool_get (snd (process_entry fi (JObj kvs) m)) (KStr T))
           = input_tokens (tool_get m (KStr T))
             + int (length (filter (tool_use_named T) (content_items kvs)))
               * usage_amount (dict_get kvs ''message'' (JObj [])) ''input_tokens''
    \<and> output_tokens (tool_get (snd (process_entry fi (JObj kvs) m)) (KStr T))
           = output_tokens (tool_get m (KStr T))
             + int (length (filter (tool_use_named T) (content_items kvs)))
               * usage_amount (dict_get kvs ''message'' (JObj [])) ''output_tokens''
    \<and> cache_creation_tokens (tool_get (snd (process_entry fi (JObj kvs) m)) (KStr T))
           = cache_creation_tokens (tool_get m (KStr T))
             + int (length (filter (tool_use_named T) (content_items kvs)))
               * usage_amount (dict_get kvs ''message'' (JObj [])) ''cache_creation_input_tokens''
    \<and> cache_read_tokens (tool_get (snd (process_entry fi (JObj kvs) m)) (KStr T))
           = cache_read_tokens (tool_get m (KStr T))
             + int (length (filter (tool_use_named T) (content_items kvs)))
               * usage_amount (dict_get kvs ''message'' (JObj [])) ''cache_read_input_tokens''
    \<and> (T = ''Read'' \<and> map_of kvs ''message'' = Some (JObj mk) \<and> map_of mk ''usage'' = Some (JObj uk)
         \<and> map_of uk ''input_tokens'' = Some (JInt 100)
         \<and> length (filter (tool_use_named ''Read'') (content_items kvs)) = 2
         \<longrightarrow> input_tokens (tool_get (snd (process_entry fi (JObj kvs) m)) (KStr ''Read''))
               = input_tokens (tool_get m (KStr ''Read'')) + 200)"
proof -
  have eq: "process_entry fi (JObj kvs) m = track_entry kvs m"
    by (rule process_entry_retained [OF assms(1)])
  have ok: "fst (track_entry kvs m) = None" using assms(2) eq by simp
  have amt: "usage_amount (dict_get kvs ''message'' (JObj [])) ''input_tokens'' = 100"
    if "map_of kvs ''message'' = Some (JObj mk)" "map_of mk ''usage'' = Some (JObj uk)"
      "map_of uk ''input_tokens'' = Some (JInt 100)"
    using that by (simp add: usage_amount_def dict_get_def py_get_def usage_operand_def)
  show ?thesis
    unfolding eq using track_entry_exact [OF ok, of T] assms(3) amt by auto
qed

theorem tokens_counted_per_block_witness:
  "input_tokens (tool_get (snd (process_entry example_fromisoformat
      (JObj [(''message'', JObj [(''usage'', JObj [(''input_tokens'', JInt 100)]),
         (''content'', JArr
          [JObj [(''type'', JStr ''tool_use''), (''name'', JStr ''Read'')],
           JObj [(''type'', JStr ''tool_use''), (''name'', JStr ''Read'')]])])])
      (init 0 7))) (KStr ''Read'')) = 200"
proof -
  let ?uk = "[(''input_tokens'', JInt 100)]"
  let ?mk = "[(''usage'', JObj ?uk),
         (''content'', JArr
          [JObj [(''type'', JStr ''tool_use''), (''name'', JStr ''Read'')],
           JObj [(''type'', JStr ''tool_use''), (''name'', JStr ''Read'')]])]"
  let ?kvs = "[(''message'', JObj ?mk)]"
  have h1: "time_filter example_fromisoformat (cutoff_date (init 0 7)) (dict_get ?kvs ''timestamp'' JNull)
      = Inr False"
    by (simp add: run_defs)
  have h2: "fst (process_entry example_fromisoformat (JObj ?kvs) (init 0 7)) = None"
    by (simp add: run_defs)
  have h3: "''Read'' \<noteq> []" by simp
  have p: "map_of ?kvs ''message'' = Some (JObj ?mk)" "map_of ?mk ''usage'' = Some (JObj ?uk)"
    "map_of ?uk ''input_tokens'' = Some (JInt 100)"
    by simp_all
  have v: "input_tokens (tool_get (init 0 7) (KStr ''Read'')) = 0"
    "length (filter (tool_use_named ''Read'') (content_items ?kvs)) = 2"
    by (simp_all add: run_defs)
  note t = tokens_counted_per_block [OF h1 h2 h3, of ?mk ?uk]
  show ?thesis using t p by (simp only: v) simp
qed

theorem tokens_counted_per_block_counterexample:
  "time_filter example_fromisoformat (cutoff_date (init 0 7))
      (dict_get [(''message'', JObj
          [(''usage'', JObj [(''input_tokens'', JInt 100), (''cache_read_input_tokens'', JNull)]),
           (''content'', JArr
             [JObj [(''type'', JStr ''tool_use''), (''name'', JStr ''Read'')],
              JObj [(''type'', JStr ''tool_use''), (''name'', JStr ''Read'')]])])] ''timestamp'' JNull)
     = Inr False
   \<and> input_tokens (tool_get (init 0 7) (KStr ''Read'')) = 0
   \<and> process_entry example_fromisoformat
      (JObj [(''message'', JObj
          [(''usage'', JObj [(''input_tokens'', JInt 100), (''cache_read_input_tokens'', JNull)]),
           (''content'', JArr
             [JObj [(''type'', JStr ''tool_use''), (''name'', JStr ''Read'')],
              JObj [(''type'', JStr ''tool_use''), (''name'', JStr ''Read'')]])])])
      (init 0 7)
      = (Some TypeError,
         (init 0 7)\<lparr>tool_usage := [(KStr ''Read'', 1)],
                     tool_token_usage := [(KStr ''Read'',
                       \<lparr>input_tokens = 100, output_tokens = 0, cache_creation_tokens = 0,
                        cache_read_tokens = 0\<rparr>)]\<rparr>)
   \<and> input_tokens (tool_get ((init 0 7)\<lparr>tool_usage := [(KStr ''Read'', 1)],
                     tool_token_usage := [(KStr ''Read'',
                       \<lparr>input_tokens = 100, output_tokens = 0, cache_creation_tokens = 0,
                        cache_read_tokens = 0\<rparr>)]\<rparr>) (KStr ''Read'')) = 100"
  by (simp add: run_defs)

text \<open>
  C8, as amended. For an entry the time filter retains and whose processing raises no
  exception: a \<^verbatim>\<open>tool_use\<close> block named \<^verbatim>\<open>Task\<close> of its content whose input has a
  falsy \<^verbatim>\<open>subagent_type\<close> (absent, null, the empty string, 0, false, an empty list or
  object) and a non-empty string \<open>a\<close> as \<^verbatim>\<open>agent\<close> selects agent \<open>a\<close>; the invocation
  count of \<open>a\<close> grows by the number of blocks of the entry that select it, which is at
  least 1, and each of its four token totals grows by the entry's usage value once per
  such block.
\<close>

theorem agent_fallback_tracked:
  assumes "time_filter fi (cutoff_date m) (dict_get kvs ''timestamp'' JNull) = Inr False"
    and "fst (process_entry fi (JObj kvs) m) = None"
    and "JObj item_kvs \<in> set (content_items kvs)"
    and "map_of item_kvs ''type'' = Some (JStr ''tool_use'')"
    and "map_of item_kvs ''name'' = Some (JStr ''Task'')"
    and "map_of item_kvs ''input'' = Some (JObj inp)"
    and "\<not> truthy (dict_get inp ''subagent_type'' JNull)"
    and "map_of inp ''agent'' = Some (JStr a)" and "a \<noteq> []"
  shows "selects_agent (KStr a) (JObj item_kvs)
    \<and> 1 \<le> length (filter (selects_agent (KStr a)) (content_items kvs))
    \<and> count (agent_get (snd (process_entry fi (JObj kvs) m)) (KStr a))
         = count (agent_get m (KStr a)) + int (length (filter (selects_agent (KStr a)) (content_items kvs)))
    \<and> total_input_tokens (agent_get (snd (process_entry fi (JObj kvs) m)) (KStr a))
         = total_input_tokens (agent_get m (KStr a))
           + int (length (filter (selects_agent (KStr a)) (content_items kvs)))
             * usage_amount (dict_get kvs ''message'' (JObj [])) ''input_tokens''
    \<and> total_output_tokens (agent_get (snd (process_entry fi (JObj kvs) m)) (KStr a))
         = total_output_tokens (agent_get m (KStr a))
           + int (length (filter (selects_agent (KStr a)) (content_items kvs)))
             * usage_amount (dict_get kvs ''message'' (JObj [])) ''output_tokens''
    \<and> total_cache_creation_tokens (agent_get (snd (process_entry fi (JObj kvs) m)) (KStr a))
         = total_cache_creation_tokens (agent_get m (KStr a))
           + int (length (filter (selects_agent (KStr a)) (content_items kvs)))
             * usage_amount (dict_get kvs ''message'' (JObj [])) ''cache_creation_input_tokens''
    \<and> total_cache_read_tokens (agent_get (snd (process_entry fi (JObj kvs) m)) (KStr a))
         = total_cache_read_tokens (agent_get m (KStr a))
           + int (length (filter (selects_agent (KStr a)) (content_items kvs)))
             * usage_amount (dict_get kvs ''message'' (JObj [])) ''cache_read_input_tokens''"
proof -
  have eq: "process_entry fi (JObj kvs) m = track_entry kvs m"
    by (rule process_entry_retained [OF assms(1)])
  have ok: "fst (track_entry kvs m) = None" using assms(2) eq by simp
  have sel: "selects_agent (KStr a) (JObj item_kvs)"
    using assms(4-9)
    by (simp add: selects_agent_def tool_use_named_def subagent_of_def py_get_def dict_get_def)
  then have "JObj item_kvs \<in> set (filter (selects_agent (KStr a)) (content_items kvs))"
    using assms(3) by simp
  then have "filter (selects_agent (KStr a)) (content_items kvs) \<noteq> []"
    by (metis empty_iff list.set(1))
  then have pos: "1 \<le> length (filter (selects_agent (KStr a)) (content_items kvs))"
    by (cases "filter (selects_agent (KStr a)) (content_items kvs)") simp_all
  show ?thesis
    unfolding eq using track_entry_exact [OF ok, of "[]" "KStr a"] sel pos by simp
qed



theorem agent_fallback_tracked_witness:
  "count (agent_get (snd (process_entry example_fromisoformat
      (JObj [(''sessionId'', JStr ''s1''),
             (''message'', JObj [(''usage'', JObj [(''input_tokens'', JInt 10), (''output_tokens'', JInt 4)]),
               (''content'', JArr
                 [JObj [(''type'', JStr ''tool_use''), (''name'', JStr ''Task''),
                        (''input'', JObj [(''subagent_type'', JStr []), (''agent'', JStr ''reviewer'')])]])])])
      (init 0 7))) (KStr ''reviewer'')) = 1
   \<and> total_input_tokens (agent_get (snd (process_entry example_fromisoformat
      (JObj [(''sessionId'', JStr ''s1''),
             (''message'', JObj [(''usage'', JObj [(''input_tokens'', JInt 10), (''output_tokens'', JInt 4)]),
               (''content'', JArr
                 [JObj [(''type'', JStr ''tool_use''), (''name'', JStr ''Task''),
                        (''input'', JObj [(''subagent_type'', JStr []), (''agent'', JStr ''reviewer'')])]])])])
      (init 0 7))) (KStr ''reviewer'')) = 10
   \<and> total_output_tokens (agent_get (snd (process_entry example_fromisoformat
      (JObj [(''sessionId'', JStr ''s1''),
             (''message'', JObj [(''usage'', JObj [(''input_tokens'', JInt 10), (''output_tokens'', JInt 4)]),
               (''content'', JArr
                 [JObj [(''type'', JStr ''tool_use''), (''name'', JStr ''Task''),
                        (''input'', JObj [(''subagent_type'', JStr []), (''agent'', JStr ''reviewer'')])]])])])
      (init 0 7))) (KStr ''reviewer'')) = 4"
proof -
  let ?inp = "[(''subagent_type'', JStr []), (''agent'', JStr ''reviewer'')]"
  let ?item = "[(''type'', JStr ''tool_use''), (''name'', JStr ''Task''), (''input'', JObj ?inp)]"
  let ?msg = "JObj [(''usage'', JObj [(''input_tokens'', JInt 10), (''output_tokens'', JInt 4)]),
               (''content'', JArr [JObj ?item])]"
  let ?kvs = "[(''sessionId'', JStr ''s1''), (''message'', ?msg)]"
  have h1: "time_filter example_fromisoformat (cutoff_date (init 0 7)) (dict_get ?kvs ''timestamp'' JNull)
      = Inr False"
    by (simp add: run_defs)
  have h2: "fst (process_entry example_fromisoformat (JObj ?kvs) (init 0 7)) = None"
    by (simp add: run_defs)
  have h3: "JObj ?item \<in> set (content_items ?kvs)"
    by (simp add: run_defs)
  have h4: "map_of ?item ''type'' = Some (JStr ''tool_use'')" "map_of ?item ''name'' = Some (JStr ''Task'')"
    "map_of ?item ''input'' = Some (JObj ?inp)" "\<not> truthy (dict_get ?inp ''subagent_type'' JNull)"
    "map_of ?inp ''agent'' = Some (JStr ''reviewer'')" "''reviewer'' \<noteq> []"
    by (simp_all add: dict_get_def)
  have v: "count (agent_get (init 0 7) (KStr ''reviewer'')) = 0"
    "total_input_tokens (agent_get (init 0 7) (KStr ''reviewer'')) = 0"
    "total_output_tokens (agent_get (init 0 7) (KStr ''reviewer'')) = 0"
    "length (filter (selects_agent (KStr ''reviewer'')) (content_items ?kvs)) = 1"
    "usage_amount (dict_get ?kvs ''message'' (JObj [])) ''input_tokens'' = 10"
    "usage_amount (dict_get ?kvs ''message'' (JObj [])) ''output_tokens'' = 4"
    by (simp_all add: run_defs)
  note t = agent_fallback_tracked [OF h1 h2 h3 h4]
  show ?thesis using t by (simp only: v) simp
qed

theorem agent_fallback_tracked_counterexample:
  "time_filter example_fromisoformat (cutoff_date (init 0 7))
      (dict_get [(''message'', JObj [(''content'', JArr
          [JObj [(''type'', JStr ''tool_use''), (''name'', JStr ''Task''), (''input'', JStr ''run the tests'')],
           JObj [(''type'', JStr ''tool_use''), (''name'', JStr ''Task''),
                 (''input'', JObj [(''subagent_type'', JStr []), (''agent'', JStr ''reviewer'')])]])])]
        ''timestamp'' JNull) = Inr False
   \<and> process_entry example_fromisoformat
      (JObj [(''message'', JObj [(''content'', JArr
          [JObj [(''type'', JStr ''tool_use''), (''name'', JStr ''Task''), (''input'', JStr ''run the tests'')],
           JObj [(''type'', JStr ''tool_use''), (''name'', JStr ''Task''),
                 (''input'', JObj [(''subagent_type'', JStr []), (''agent'', JStr ''reviewer'')])]])])])
      (init 0 7)
     = (Some AttributeError, (init 0 7)\<lparr>tool_usage := [(KStr ''Task'', 1)]\<rparr>)
   \<and> agent_usage ((init 0 7)\<lparr>tool_usage := [(KStr ''Task'', 1)]\<rparr>) = []"
  by (simp add: run_defs)

end
